theory Spec2Isabelle
  imports Main "HOL-Library.Word"
begin

unbundle bit_operations_syntax

section \<open>Data model of dmabuf-sharing.c\<close>

type_synonym u32 = "32 word"
type_synonym u64 = "64 word"

text \<open>
  \<^verbatim>\<open>struct v4l2_rect\<close> (left and top are signed, width and height unsigned 32-bit
  values; all four are kept as 32-bit patterns).
\<close>

record v4l2_rect =
  left :: u32
  top_r :: u32
  width :: u32
  height :: u32

text \<open>
  \<^verbatim>\<open>struct setup\<close>, here \<open>setup_t\<close>, and its field \<^verbatim>\<open>module\<close>, here \<open>drm_module\<close>
  (both names are reserved words of Isabelle). The char arrays \<^verbatim>\<open>module[32]\<close> and
  \<^verbatim>\<open>video[32]\<close> are strings of at most 31 characters, the one-bit fields are booleans,
  \<^verbatim>\<open>conId\<close> (an int read with \<^verbatim>\<open>%u\<close>) is a 32-bit pattern, \<^verbatim>\<open>crtcIdx\<close> an int.
\<close>

record setup_t =
  drm_module :: string
  conId :: u32
  crtcId :: u32
  crtcIdx :: int
  planeId :: u32
  video :: string
  w :: u32
  h :: u32
  use_wh :: bool
  in_fourcc :: u32
  out_fourcc :: u32
  buffer_count :: u32
  use_crop :: bool
  use_compose :: bool
  crop :: v4l2_rect
  compose :: v4l2_rect

text \<open>\<^verbatim>\<open>struct buffer\<close>.\<close>

record buffer =
  bo_handle :: u32
  fb_handle :: u32
  dbuf_fd :: int

text \<open>The arguments of one \<^verbatim>\<open>drmModeSetPlane\<close> call, in the order of its parameters.\<close>

record plane_req =
  sp_plane_id :: u32
  sp_crtc_id :: u32
  sp_fb_id :: u32
  sp_flags :: u32
  crtc_x :: u32
  crtc_y :: u32
  crtc_w :: u32
  crtc_h :: u32
  src_x :: u32
  src_y :: u32
  src_w :: u32
  src_h :: u32

text \<open>\<^verbatim>\<open>struct v4l2_pix_format\<close>, the fields the program reads or writes.\<close>

record pix_format =
  pix_width :: u32
  pix_height :: u32
  pixelformat :: u32
  bytesperline :: u32
  sizeimage :: u32

text \<open>
  The calls the program makes on the two devices, each with the arguments it passes, the
  value the call returned and, last, what the call hands out when it succeeds (the handle
  of \<^verbatim>\<open>CREATE_DUMB\<close>, the descriptor of \<^verbatim>\<open>PRIME_HANDLE_TO_FD\<close>, the framebuffer id of
  \<^verbatim>\<open>drmModeAddFB2\<close>, the index of \<^verbatim>\<open>VIDIOC_DQBUF\<close>). A run of the program is observed as
  the list of these calls in program order.
\<close>

datatype call =
    DrmOpen string int
  | OpenVideo string int
  | QueryCap int
  | G_Fmt int
  | S_Fmt pix_format int
  | ReqBufs u32 int
  | Create_Dumb u32 u32 u32 u64 int u32
  | Prime_Handle_To_FD u32 int int
  | AddFB2 u32 u32 u32 u32 u32 int u32
  | Close int
  | Destroy_Dumb u32 int
  | GetResources
  | GetPlaneResources
  | QBuf u32 int int
  | StreamOn int
  | DQBuf int u32
  | SetPlane plane_req int

text \<open>
  How a run ends other than by a function returning: \<^verbatim>\<open>BYE_ON\<close> prints its message and
  calls \<^verbatim>\<open>abort()\<close> (\<open>Aborted\<close> keeps the words of the message, without the values
  formatted into it); \<^verbatim>\<open>exit(n)\<close> and the return of \<^verbatim>\<open>main\<close> end the process with a status;
  a read through a null pointer or outside an array, or a shift by an amount outside
  the width of the type, has no defined behaviour; \<open>Polling\<close> is a run observed only up to
  a moment at which the program is blocked in \<^verbatim>\<open>poll\<close>.
\<close>

datatype halt = Aborted string | Exited int | Faulted string | Polling

section \<open>The DRM objects the resolution functions read\<close>

record drm_plane =
  plane_id :: u32
  possible_crtcs :: u32
  formats :: "u32 list"

record drm_crtc =
  crtc_id :: u32
  crtc_pos_x :: u32
  crtc_pos_y :: u32
  crtc_width :: u32
  crtc_height :: u32

record drm_encoder =
  enc_crtc_id :: u32

record drm_connector =
  connector_id :: u32
  encoder_id :: u32
  count_modes :: int

record drm_resources =
  crtcs :: "u32 list"
  connectors :: "u32 list"

text \<open>
  The state of the DRM device as the getters of libdrm report it. A getter that returns
  \<^verbatim>\<open>NULL\<close> is \<open>None\<close>. \<^verbatim>\<open>count_crtcs\<close>, \<^verbatim>\<open>count_connectors\<close>, \<^verbatim>\<open>count_planes\<close> and
  \<^verbatim>\<open>count_formats\<close> are the lengths of the lists.
\<close>

record drm_dev =
  getResources :: "drm_resources option"
  getConnector :: "u32 \<Rightarrow> drm_connector option"
  getEncoder :: "u32 \<Rightarrow> drm_encoder option"
  getCrtc :: "u32 \<Rightarrow> drm_crtc option"
  getPlaneResources :: "u32 list option"
  getPlane :: "u32 \<Rightarrow> drm_plane option"

section \<open>parse_args\<close>

text \<open>
  The conversions \<^verbatim>\<open>%u\<close> and \<^verbatim>\<open>%d\<close> of \<^verbatim>\<open>sscanf\<close>, as far as the program relies on them:
  white space is skipped, a sign is accepted, at least one decimal digit is required, and
  the digits are read as far as they go. The value is kept as a 32-bit pattern (what the
  C library stores for a number that does not fit is not modelled: it wraps here).
\<close>

definition isspace :: "char \<Rightarrow> bool" where
  "isspace c \<longleftrightarrow> (of_char c :: nat) = 32 \<or> (9 \<le> (of_char c :: nat) \<and> (of_char c :: nat) \<le> 13)"

definition isdigit :: "char \<Rightarrow> bool" where
  "isdigit c \<longleftrightarrow> 48 \<le> (of_char c :: nat) \<and> (of_char c :: nat) \<le> 57"

fun scan_digits :: "string \<Rightarrow> nat \<Rightarrow> nat \<times> string" where
  "scan_digits [] acc = (acc, [])"
| "scan_digits (c # cs) acc =
    (if isdigit c then scan_digits cs (10 * acc + (of_char c - 48)) else (acc, c # cs))"

definition scan_number :: "string \<Rightarrow> (u32 \<times> string) option" where
  "scan_number str =
    (let str1 = dropWhile isspace str;
         neg = (case str1 of [] \<Rightarrow> False | c # cs \<Rightarrow> c = CHR ''-'');
         str2 = (case str1 of [] \<Rightarrow> []
                 | c # cs \<Rightarrow> if c = CHR ''-'' \<or> c = CHR ''+'' then cs else str1)
     in case str2 of
          [] \<Rightarrow> None
        | c # cs \<Rightarrow>
            if isdigit c
            then (case scan_digits str2 0 of
                    (n, rest) \<Rightarrow> Some (if neg then - of_nat n else of_nat n, rest))
            else None)"

text \<open>
  \<^verbatim>\<open>sscanf\<close> with a format of numbers separated by the literal characters \<open>seps\<close>
  (\<^verbatim>\<open>"%u:%u"\<close> is \<open>[CHR '':'']\<close>): the values converted before the input stops matching,
  in order. Their number is what \<^verbatim>\<open>sscanf\<close> returns, and only their targets are written.
\<close>

fun sscanf_nums :: "char list \<Rightarrow> string \<Rightarrow> u32 list" where
  "sscanf_nums [] str = (case scan_number str of None \<Rightarrow> [] | Some (v, rest) \<Rightarrow> [v])"
| "sscanf_nums (sep # seps) str =
    (case scan_number str of
       None \<Rightarrow> []
     | Some (v, rest) \<Rightarrow>
         v # (case rest of [] \<Rightarrow> []
              | c # cs \<Rightarrow> if c = sep then sscanf_nums seps cs else []))"

text \<open>The target of the \<open>k\<close>-th conversion after the call: written when it was converted.\<close>

definition stored :: "u32 list \<Rightarrow> nat \<Rightarrow> u32 \<Rightarrow> u32" where
  "stored vs k old = (if k < length vs then vs ! k else old)"

text \<open>
  \<^verbatim>\<open>parse_rect\<close>: the four numbers of \<^verbatim>\<open>"%d,%d@%d,%d"\<close> go to \<^verbatim>\<open>width\<close>, \<^verbatim>\<open>height\<close>,
  \<^verbatim>\<open>top\<close> and \<^verbatim>\<open>left\<close>, in this order (line 121); the result is 1 unless all four were
  converted.
\<close>

definition parse_rect :: "string \<Rightarrow> v4l2_rect \<Rightarrow> int \<times> v4l2_rect" where
  "parse_rect str r =
    (let vs = sscanf_nums [CHR '','', CHR ''@'', CHR '',''] str in
     (if length vs \<noteq> 4 then 1 else 0,
      r\<lparr>width := stored vs 0 (width r), height := stored vs 1 (height r),
        top_r := stored vs 2 (top_r r), left := stored vs 3 (left r)\<rparr>))"

text \<open>
  \<^verbatim>\<open>(unsigned)optarg[k]\<close>: a plain char converted to unsigned. Plain char is taken as
  signed, so a byte of 128 or more is sign-extended; where plain char is unsigned that
  case does not extend, and the two agree on ASCII.
\<close>

definition char_bits :: "char \<Rightarrow> u32" where
  "char_bits c =
    (if (of_char c :: nat) < 128 then of_nat (of_char c) else of_nat (of_char c) OR 0xFFFFFF00)"

definition fourcc_of :: "string \<Rightarrow> u32" where
  "fourcc_of a =
     push_bit 0 (char_bits (a ! 0)) OR push_bit 8 (char_bits (a ! 1)) OR
     push_bit 16 (char_bits (a ! 2)) OR push_bit 24 (char_bits (a ! 3))"

text \<open>
  The loop of \<^verbatim>\<open>parse_args\<close> over the options as \<^verbatim>\<open>getopt\<close> hands them out, each an option
  character with its \<^verbatim>\<open>optarg\<close> (\<^verbatim>\<open>getopt\<close> returns \<^verbatim>\<open>?\<close> for an option it does not know).
  \<^verbatim>\<open>strncpy(.., optarg, 31)\<close> into the zeroed array keeps the first 31 characters.
\<close>

fun parse_opts :: "(char \<times> string) list \<Rightarrow> setup_t \<Rightarrow> int \<times> setup_t" where
  "parse_opts [] s = (0, s)"
| "parse_opts ((c, optarg) # rest) s =
    (if c = CHR ''M'' then parse_opts rest (s\<lparr>drm_module := take 31 optarg\<rparr>)
     else if c = CHR ''o'' then
       (let vs = sscanf_nums [CHR '':''] optarg;
            s1 = s\<lparr>conId := stored vs 0 (conId s), crtcId := stored vs 1 (crtcId s)\<rparr>
        in if length vs \<noteq> 2 then (- 1, s1) else parse_opts rest s1)
     else if c = CHR ''i'' then parse_opts rest (s\<lparr>video := take 31 optarg\<rparr>)
     else if c = CHR ''S'' then
       (let vs = sscanf_nums [CHR '',''] optarg;
            s1 = s\<lparr>w := stored vs 0 (w s), h := stored vs 1 (h s)\<rparr>
        in if length vs \<noteq> 2 then (- 1, s1) else parse_opts rest (s1\<lparr>use_wh := True\<rparr>))
     else if c = CHR ''f'' then
       (if length optarg \<noteq> 4 then (- 1, s)
        else parse_opts rest (s\<lparr>in_fourcc := fourcc_of optarg\<rparr>))
     else if c = CHR ''F'' then
       (if length optarg \<noteq> 4 then (- 1, s)
        else parse_opts rest (s\<lparr>out_fourcc := fourcc_of optarg\<rparr>))
     else if c = CHR ''s'' then
       (case parse_rect optarg (crop s) of
          (ret, r) \<Rightarrow>
            if ret \<noteq> 0 then (- 1, s\<lparr>crop := r\<rparr>)
            else parse_opts rest (s\<lparr>crop := r, use_crop := True\<rparr>))
     else if c = CHR ''t'' then
       (case parse_rect optarg (compose s) of
          (ret, r) \<Rightarrow>
            if ret \<noteq> 0 then (- 1, s\<lparr>compose := r\<rparr>)
            else parse_opts rest (s\<lparr>compose := r, use_compose := True\<rparr>))
     else if c = CHR ''b'' then
       (let vs = sscanf_nums [] optarg;
            s1 = s\<lparr>buffer_count := stored vs 0 (buffer_count s)\<rparr>
        in if length vs \<noteq> 1 then (- 1, s1) else parse_opts rest s1)
     else if c = CHR ''?'' \<or> c = CHR ''h'' then (- 1, s)
     else parse_opts rest s)"

definition rect0 :: v4l2_rect where
  "rect0 = \<lparr>left = 0, top_r = 0, width = 0, height = 0\<rparr>"

text \<open>The setup after \<^verbatim>\<open>memset(s, 0, sizeof(*s))\<close>.\<close>

definition setup0 :: setup_t where
  "setup0 =
    \<lparr>drm_module = [], conId = 0, crtcId = 0, crtcIdx = 0, planeId = 0, video = [],
     w = 0, h = 0, use_wh = False, in_fourcc = 0, out_fourcc = 0, buffer_count = 0,
     use_crop = False, use_compose = False, crop = rect0, compose = rect0\<rparr>"

text \<open>\<^verbatim>\<open>parse_args\<close>: the value returned and the setup it leaves.\<close>

definition parse_args :: "(char \<times> string) list \<Rightarrow> int \<times> setup_t" where
  "parse_args opts = parse_opts opts setup0"

section \<open>buffer_create\<close>

text \<open>
  What the DRM device answers to the calls of one \<^verbatim>\<open>buffer_create\<close>: the return value
  of each ioctl and the handle, descriptor or framebuffer id it hands out.
\<close>

record create_env =
  create_dumb_ret :: int
  gem_handle :: u32
  prime_ret :: int
  prime_fd :: int
  addfb_ret :: int
  addfb_id :: u32
  destroy_ret :: int

text \<open>
  Lines 226 to 228: the layout the framebuffer is registered with is \<^verbatim>\<open>out_fourcc\<close>,
  or \<^verbatim>\<open>in_fourcc\<close> when \<^verbatim>\<open>out_fourcc\<close> is 0.
\<close>

definition fb_fourcc :: "setup_t \<Rightarrow> u32" where
  "fb_fourcc s = (if out_fourcc s = 0 then in_fourcc s else out_fourcc s)"

text \<open>The label \<^verbatim>\<open>fail_gem\<close>: destroy the dumb buffer; the result is only warned about.\<close>

definition fail_gem :: "create_env \<Rightarrow> buffer \<Rightarrow> call list" where
  "fail_gem e b = [Destroy_Dumb (bo_handle b) (destroy_ret e)]"

text \<open>The label \<^verbatim>\<open>fail_prime\<close>: close the exported descriptor, then fall into \<^verbatim>\<open>fail_gem\<close>.\<close>

definition fail_prime :: "create_env \<Rightarrow> buffer \<Rightarrow> call list" where
  "fail_prime e b = Close (dbuf_fd b) # fail_gem e b"

text \<open>
  \<^verbatim>\<open>buffer_create(b, drmfd, s, size, pitch)\<close>: the calls made, the value returned and
  the contents of \<^verbatim>\<open>*b\<close> afterwards. \<^verbatim>\<open>drmModeAddFB2\<close> stores the framebuffer id only when
  it succeeds.
\<close>

definition buffer_create ::
  "create_env \<Rightarrow> buffer \<Rightarrow> setup_t \<Rightarrow> u64 \<Rightarrow> u32 \<Rightarrow> call list \<times> int \<times> buffer" where
  "buffer_create e b s sz pitch =
    (let c1 = Create_Dumb (w s) (h s) 32 sz (create_dumb_ret e) (gem_handle e) in
     if create_dumb_ret e \<noteq> 0 then ([c1], -1, b)
     else
       let b1 = b\<lparr>bo_handle := gem_handle e\<rparr>;
           c2 = Prime_Handle_To_FD (bo_handle b1) (prime_ret e) (prime_fd e) in
       if prime_ret e \<noteq> 0 then ([c1, c2] @ fail_gem e b1, -1, b1)
       else
         let b2 = b1\<lparr>dbuf_fd := prime_fd e\<rparr>;
             c3 = AddFB2 (w s) (h s) (fb_fourcc s) (bo_handle b2) pitch (addfb_ret e)
                    (addfb_id e) in
         if addfb_ret e \<noteq> 0 then ([c1, c2, c3] @ fail_prime e b2, -1, b2)
         else ([c1, c2, c3], 0, b2\<lparr>fb_handle := addfb_id e\<rparr>))"

section \<open>find_crtc\<close>

text \<open>
  The loop of lines 270 to 296, run when no connector was given: every connector of the
  list is fetched, and the first one whose encoder drives a CRTC sets \<^verbatim>\<open>conId\<close> and
  \<^verbatim>\<open>crtcId\<close>. Neither \<^verbatim>\<open>drmModeGetConnector\<close> nor \<^verbatim>\<open>drmModeGetEncoder\<close> is checked for
  \<^verbatim>\<open>NULL\<close> before the result is read.
\<close>

fun choose_connector :: "drm_dev \<Rightarrow> u32 list \<Rightarrow> setup_t \<Rightarrow> halt + setup_t" where
  "choose_connector d [] s = Inr s"
| "choose_connector d (cid # rest) s =
    (case getConnector d cid of
       None \<Rightarrow> Inl (Faulted ''con is NULL'')
     | Some con \<Rightarrow>
        (case (if encoder_id con \<noteq> 0
               then (case getEncoder d (encoder_id con) of
                       None \<Rightarrow> Inl (Faulted ''enc is NULL'')
                     | Some enc \<Rightarrow>
                         Inr (if enc_crtc_id enc \<noteq> 0 then getCrtc d (enc_crtc_id enc)
                              else None))
               else Inr None) of
           Inl f \<Rightarrow> Inl f
         | Inr None \<Rightarrow> choose_connector d rest s
         | Inr (Some crtc) \<Rightarrow>
             choose_connector d rest
               (if conId s = 0 then s\<lparr>conId := connector_id con, crtcId := crtc_id crtc\<rparr>
                else s)))"

text \<open>The loop of lines 307 to 312 from index \<open>i\<close>: the index of the CRTC, or -1.\<close>

fun crtc_index :: "u32 \<Rightarrow> u32 list \<Rightarrow> int \<Rightarrow> int" where
  "crtc_index c [] i = - 1"
| "crtc_index c (x # xs) i = (if c = x then i else crtc_index c xs (i + 1))"

text \<open>
  \<^verbatim>\<open>find_crtc(drmfd, s, con)\<close>: the value returned and the setup afterwards (the connector
  id stored through \<^verbatim>\<open>con\<close> is never read by \<^verbatim>\<open>main\<close> and is left out). With no usable
  connector the function ends the process by \<^verbatim>\<open>exit(1)\<close>.
\<close>

definition find_crtc :: "drm_dev \<Rightarrow> setup_t \<Rightarrow> halt + (int \<times> setup_t)" where
  "find_crtc d s =
    (case getResources d of
       None \<Rightarrow> Inr (- 1, s)
     | Some res \<Rightarrow>
        if crtcs res = [] then Inr (- 1, s)
        else
          (case (if conId s = 0
                 then (case choose_connector d (connectors res) s of
                         Inl f \<Rightarrow> Inl f
                       | Inr s1 \<Rightarrow> if conId s1 = 0 then Inl (Exited 1) else Inr s1)
                 else Inr s) of
             Inl f \<Rightarrow> Inl f
           | Inr s1 \<Rightarrow>
              (let s2 = s1\<lparr>crtcIdx := crtc_index (crtcId s1) (crtcs res) 0\<rparr> in
               if crtcIdx s2 = - 1 then Inr (- 1, s2)
               else if connectors res = [] then Inr (- 1, s2)
               else
                 (case getConnector d (conId s2) of
                    None \<Rightarrow> Inr (- 1, s2)
                  | Some c \<Rightarrow>
                     if count_modes c = 0 then Inr (- 1, s2)
                     else if \<not> use_compose s2 then
                       (case getCrtc d (crtcId s2) of
                          None \<Rightarrow> Inl (Faulted ''crtc is NULL'')
                        | Some crtc \<Rightarrow>
                            Inr (0, s2\<lparr>compose :=
                                   \<lparr>left = crtc_pos_x crtc, top_r = crtc_pos_y crtc,
                                    width = crtc_width crtc, height = crtc_height crtc\<rparr>\<rparr>))
                     else Inr (0, s2)))))"

section \<open>find_plane\<close>

text \<open>
  The inner loop of \<^verbatim>\<open>find_plane\<close> (lines 372 to 375): \<open>j\<close> runs over the formats of the
  plane and stops at the first one equal to \<^verbatim>\<open>out_fourcc\<close>; the value of \<open>j\<close> after the
  loop is returned.
\<close>

function scan_formats :: "u32 list \<Rightarrow> u32 \<Rightarrow> nat \<Rightarrow> nat" where
  "scan_formats fs fourcc j =
    (if j < length fs
     then (if fs ! j = fourcc then j else scan_formats fs fourcc (Suc j))
     else j)"
  by pat_completeness auto
termination
  by (relation "measure (\<lambda>(fs, fourcc, j). length fs - j)") auto

declare scan_formats.simps [simp del]

text \<open>
  The outer loop (lines 362 to 385), from index \<open>i\<close>: the value of \<open>i\<close> after the loop
  and the setup. \<^verbatim>\<open>drmModeGetPlane\<close> returning \<^verbatim>\<open>NULL\<close> is not caught (the test at line 364
  looks at \<^verbatim>\<open>planes\<close>, which is not null here), so the next line reads through a null
  pointer. \<^verbatim>\<open>1 << s->crtcIdx\<close> is a shift of an int: it is taken as defined for 0 to 31
  (for 31 the result is the sign bit, as the compilers in use give it) and has no defined
  behaviour outside.
\<close>

function scan_planes ::
  "drm_dev \<Rightarrow> setup_t \<Rightarrow> u32 list \<Rightarrow> nat \<Rightarrow> halt + (nat \<times> setup_t)" where
  "scan_planes d s ids i =
    (if i < length ids then
       (case getPlane d (ids ! i) of
          None \<Rightarrow> Inl (Faulted ''plane is NULL'')
        | Some plane \<Rightarrow>
            if crtcIdx s < 0 \<or> 32 \<le> crtcIdx s then Inl (Faulted ''shift out of range'')
            else if possible_crtcs plane AND push_bit (nat (crtcIdx s)) 1 = 0
            then scan_planes d s ids (Suc i)
            else if scan_formats (formats plane) (out_fourcc s) 0 = length (formats plane)
            then scan_planes d s ids (Suc i)
            else Inr (i, s\<lparr>planeId := plane_id plane\<rparr>))
     else Inr (i, s))"
  by pat_completeness auto
termination
  by (relation "measure (\<lambda>(d, s, ids, i). length ids - i)") auto

declare scan_planes.simps [simp del]

text \<open>\<^verbatim>\<open>find_plane(drmfd, s)\<close>: the value returned and the setup afterwards.\<close>

definition find_plane :: "drm_dev \<Rightarrow> setup_t \<Rightarrow> halt + (int \<times> setup_t)" where
  "find_plane d s =
    (case getPlaneResources d of
       None \<Rightarrow> Inr (-1, s)
     | Some ids \<Rightarrow>
        (case scan_planes d s ids 0 of
           Inl f \<Rightarrow> Inl f
         | Inr (i, s') \<Rightarrow> Inr (if i = length ids then -1 else 0, s')))"

text \<open>
  The resolution rule in the words of the specification: a plane survives when the
  bitmask of its possible CRTCs has the bit of the chosen CRTC's index and its formats
  contain the presentation layout; the first survivor of the reported order is taken.
\<close>

definition plane_compatible :: "int \<Rightarrow> u32 \<Rightarrow> drm_plane \<Rightarrow> bool" where
  "plane_compatible idx layout p \<longleftrightarrow>
     bit (possible_crtcs p) (nat idx) \<and> layout \<in> set (formats p)"

definition resolve_plane :: "drm_plane list \<Rightarrow> int \<Rightarrow> u32 \<Rightarrow> drm_plane option" where
  "resolve_plane ps idx layout = find (plane_compatible idx layout) ps"

section \<open>The handoff loop of main\<close>

text \<open>
  What the two devices answer in one iteration of the loop at lines 506 to 537: the value
  \<^verbatim>\<open>poll\<close> returns and the \<^verbatim>\<open>revents\<close> it reports for the video node and for the DRM
  descriptor, the return value of \<^verbatim>\<open>VIDIOC_DQBUF\<close> and the index the driver stores in
  \<^verbatim>\<open>buf\<close>, the return value of \<^verbatim>\<open>drmModeSetPlane\<close> and that of \<^verbatim>\<open>VIDIOC_QBUF\<close>.
\<close>

record loop_event =
  poll_ret :: int
  revents_v4l :: "16 word"
  revents_drm :: "16 word"
  dqbuf_ret :: int
  dqbuf_index :: u32
  setplane_ret :: int
  qbuf_ret :: int

text \<open>\<^verbatim>\<open>struct v4l2_buffer\<close>, the fields the loop reads or writes.\<close>

record v4l2_buffer =
  index :: u32
  m_fd :: int

definition POLLIN :: "16 word" where
  "POLLIN = 1"

text \<open>The \<^verbatim>\<open>drmModeSetPlane\<close> call of lines 516 to 521 for the framebuffer \<open>fb\<close>.\<close>

definition set_plane_req :: "setup_t \<Rightarrow> u32 \<Rightarrow> plane_req" where
  "set_plane_req s fb =
    \<lparr>sp_plane_id = planeId s, sp_crtc_id = crtcId s, sp_fb_id = fb, sp_flags = 0,
     crtc_x = left (compose s), crtc_y = top_r (compose s),
     crtc_w = width (compose s), crtc_h = height (compose s),
     src_x = 0, src_y = 0, src_w = push_bit 16 (w s), src_h = push_bit 16 (h s)\<rparr>"

text \<open>
  The body of the loop, entered with \<^verbatim>\<open>stream.current_buffer = cur\<close> (an int, kept as its
  32-bit pattern, so that -1 is the word -1): the calls made, and how the body ends, with
  the new value of \<^verbatim>\<open>stream.current_buffer\<close> when it reaches line 536. The one local
  variable \<^verbatim>\<open>buf\<close> first receives the dequeued buffer; when \<^verbatim>\<open>cur\<close> is not -1 it is cleared
  and refilled for the \<^verbatim>\<open>VIDIOC_QBUF\<close> of \<^verbatim>\<open>cur\<close>; line 536 then reads \<^verbatim>\<open>buf.index\<close>.
  \<^verbatim>\<open>buffer[buf.index]\<close> is indexed by an unsigned, \<^verbatim>\<open>stream.buffer[stream.current_buffer]\<close>
  by an int; a read outside the array has no defined behaviour.
\<close>

definition handoff_body ::
  "setup_t \<Rightarrow> buffer list \<Rightarrow> u32 \<Rightarrow> loop_event \<Rightarrow> call list \<times> (halt + u32)" where
  "handoff_body s buffer cur ev =
    (let buf = \<lparr>index = dqbuf_index ev, m_fd = 0\<rparr>;
         c1 = DQBuf (dqbuf_ret ev) (index buf) in
     if dqbuf_ret ev \<noteq> 0 then ([c1], Inl (Aborted ''VIDIOC_DQBUF failed''))
     else if \<not> unat (index buf) < length buffer
     then ([c1], Inl (Faulted ''buffer[buf.index] is outside the array''))
     else
       let c2 = SetPlane (set_plane_req s (fb_handle (buffer ! unat (index buf))))
                  (setplane_ret ev) in
       if setplane_ret ev \<noteq> 0 then ([c1, c2], Inl (Aborted ''drmModeSetPlane failed''))
       else if cur \<noteq> - 1 then
         (if \<not> (0 \<le> sint cur \<and> nat (sint cur) < length buffer)
          then ([c1, c2], Inl (Faulted ''stream.buffer[stream.current_buffer] is outside the array''))
          else
            let buf = \<lparr>index = cur, m_fd = dbuf_fd (buffer ! nat (sint cur))\<rparr>;
                c3 = QBuf (index buf) (m_fd buf) (qbuf_ret ev) in
            if qbuf_ret ev \<noteq> 0 then ([c1, c2, c3], Inl (Aborted ''VIDIOC_QBUF failed''))
            else ([c1, c2, c3], Inr (index buf)))
       else ([c1, c2], Inr (index buf)))"

text \<open>
  The loop itself, over the answers of the devices to its successive iterations: the calls
  made, the last value of \<^verbatim>\<open>stream.current_buffer\<close>, and how the run ends. \<^verbatim>\<open>poll\<close> returning 0
  or less leaves the loop, and \<^verbatim>\<open>main\<close> returns 0; when the answers are used up the
  program is waiting in \<^verbatim>\<open>poll\<close>.
\<close>

fun handoff ::
  "setup_t \<Rightarrow> buffer list \<Rightarrow> u32 \<Rightarrow> loop_event list \<Rightarrow> call list \<times> u32 \<times> halt" where
  "handoff s buffer cur [] = ([], cur, Polling)"
| "handoff s buffer cur (ev # evs) =
    (if poll_ret ev > 0 then
       (case handoff_body s buffer cur ev of
          (tr, Inl stop) \<Rightarrow> (tr, cur, stop)
        | (tr, Inr cur') \<Rightarrow>
            (case handoff s buffer cur' evs of (tr', c, st) \<Rightarrow> (tr @ tr', c, st)))
     else ([], cur, Exited 0))"

section \<open>main\<close>

text \<open>
  What the video node answers to the calls of \<^verbatim>\<open>main\<close> outside the loop. The format the
  final \<^verbatim>\<open>VIDIOC_G_FMT\<close> reports and the count \<^verbatim>\<open>VIDIOC_REQBUFS\<close> grants may depend on what
  the program asked for; \<open>queue_ret i\<close> is what the \<^verbatim>\<open>VIDIOC_QBUF\<close> of buffer \<open>i\<close> at line 487
  returns.
\<close>

record v4l2_dev =
  open_ret :: int
  querycap_ret :: int
  capabilities :: u32
  g_fmt_ret :: int
  g_fmt_pix :: pix_format
  s_fmt_ret :: "pix_format \<Rightarrow> int"
  g_fmt_final_ret :: "pix_format \<Rightarrow> int"
  g_fmt_final_pix :: "pix_format \<Rightarrow> pix_format"
  reqbufs_ret :: "u32 \<Rightarrow> int"
  reqbufs_count :: "u32 \<Rightarrow> u32"
  queue_ret :: "nat \<Rightarrow> int"
  streamon_ret :: int

text \<open>
  Everything outside the program that a run depends on: the two devices, the answers
  \<open>creates i\<close> to the \<open>i\<close>-th \<^verbatim>\<open>buffer_create\<close>, the contents \<open>junk\<close> of the uninitialised
  array \<^verbatim>\<open>buffer\<close>, and the answers to the iterations of the loop.
\<close>

record world =
  drm_open_ret :: int
  drm :: drm_dev
  creates :: "nat \<Rightarrow> create_env"
  junk :: buffer
  v4l :: v4l2_dev
  events :: "loop_event list"

text \<open>\<^verbatim>\<open>V4L2_CAP_VIDEO_CAPTURE\<close> of \<^verbatim>\<open>linux/videodev2.h\<close>.\<close>

definition V4L2_CAP_VIDEO_CAPTURE :: u32 where
  "V4L2_CAP_VIDEO_CAPTURE = 1"

text \<open>
  Statements in sequence: the calls of the first, then, unless it ended the run, those of
  the second.
\<close>

definition seq ::
  "call list \<times> (halt + 'a) \<Rightarrow> ('a \<Rightarrow> call list \<times> (halt + 'b)) \<Rightarrow> call list \<times> (halt + 'b)" where
  "seq m f =
    (case m of
       (tr, Inl st) \<Rightarrow> (tr, Inl st)
     | (tr, Inr a) \<Rightarrow> (case f a of (tr', r) \<Rightarrow> (tr @ tr', r)))"

text \<open>\<^verbatim>\<open>BYE_ON(cond, msg)\<close>: abort with the message when the condition holds.\<close>

definition BYE_ON :: "bool \<Rightarrow> string \<Rightarrow> call list \<times> (halt + unit)" where
  "BYE_ON cond msg = ([], if cond then Inl (Aborted msg) else Inr ())"

definition perform :: "call \<Rightarrow> call list \<times> (halt + unit)" where
  "perform c = ([c], Inr ())"

text \<open>
  Lines 404 to 464: open the devices, agree on the format with the producer, request the
  buffers. The result is the setup with the producer's final format, and \<^verbatim>\<open>size\<close> and
  \<^verbatim>\<open>pitch\<close>.
\<close>

definition negotiate :: "world \<Rightarrow> setup_t \<Rightarrow> call list \<times> (halt + (setup_t \<times> u32 \<times> u32))" where
  "negotiate W s =
    (let v = v4l W;
         fmt1 = g_fmt_pix v;
         fmt2 = (if use_wh s then fmt1\<lparr>pix_width := w s, pix_height := h s\<rparr> else fmt1);
         fmt3 = (if in_fourcc s \<noteq> 0 then fmt2\<lparr>pixelformat := in_fourcc s\<rparr> else fmt2);
         fmt = g_fmt_final_pix v fmt3
     in
     seq (perform (DrmOpen (drm_module s) (drm_open_ret W))) (\<lambda>_.
     seq (BYE_ON (drm_open_ret W < 0) ''drmOpen failed'') (\<lambda>_.
     seq (perform (OpenVideo (video s) (open_ret v))) (\<lambda>_.
     seq (BYE_ON (open_ret v < 0) ''failed to open video node'') (\<lambda>_.
     seq (perform (QueryCap (querycap_ret v))) (\<lambda>_.
     seq (BYE_ON (querycap_ret v \<noteq> 0) ''VIDIOC_QUERYCAP failed'') (\<lambda>_.
     seq (BYE_ON (NOT (capabilities v) AND V4L2_CAP_VIDEO_CAPTURE \<noteq> 0)
            ''video: singleplanar capture is not supported'') (\<lambda>_.
     seq (perform (G_Fmt (g_fmt_ret v))) (\<lambda>_.
     seq (BYE_ON (g_fmt_ret v < 0) ''VIDIOC_G_FMT failed'') (\<lambda>_.
     seq (perform (S_Fmt fmt3 (s_fmt_ret v fmt3))) (\<lambda>_.
     seq (BYE_ON (s_fmt_ret v fmt3 < 0) ''VIDIOC_S_FMT failed'') (\<lambda>_.
     seq (perform (G_Fmt (g_fmt_final_ret v fmt3))) (\<lambda>_.
     seq (BYE_ON (g_fmt_final_ret v fmt3 < 0) ''VIDIOC_G_FMT failed'') (\<lambda>_.
     seq (perform (ReqBufs (buffer_count s) (reqbufs_ret v (buffer_count s)))) (\<lambda>_.
     seq (BYE_ON (reqbufs_ret v (buffer_count s) < 0) ''VIDIOC_REQBUFS failed'') (\<lambda>_.
     seq (BYE_ON (reqbufs_count v (buffer_count s) < buffer_count s)
            ''video node allocated only a part of the buffers'') (\<lambda>_.
     ([], Inr (s\<lparr>in_fourcc := pixelformat fmt, w := pix_width fmt, h := pix_height fmt\<rparr>,
               sizeimage fmt, bytesperline fmt)))))))))))))))))))"

text \<open>
  The loop of lines 466 to 469 from index \<open>i\<close>, with \<open>acc\<close> the buffers created so far:
  the first \<^verbatim>\<open>buffer_create\<close> that fails ends the run by \<^verbatim>\<open>BYE_ON\<close>.
\<close>

function create_buffers ::
  "world \<Rightarrow> setup_t \<Rightarrow> u32 \<Rightarrow> u32 \<Rightarrow> nat \<Rightarrow> buffer list \<Rightarrow> call list \<times> (halt + buffer list)" where
  "create_buffers W s sz pitch i acc =
    (if i < unat (buffer_count s) then
       (case buffer_create (creates W i) (junk W) s (ucast sz) pitch of
          (tr, ret, b) \<Rightarrow>
            if ret \<noteq> 0 then (tr, Inl (Aborted ''failed to create buffer''))
            else (case create_buffers W s sz pitch (Suc i) (acc @ [b]) of
                    (tr', r) \<Rightarrow> (tr @ tr', r)))
     else ([], Inr acc))"
  by pat_completeness auto
termination
  by (relation "measure (\<lambda>(W, s, sz, pitch, i, acc). unat (buffer_count s) - i)") auto

declare create_buffers.simps [simp del]

text \<open>Lines 472 to 477: resolve the output, then the plane.\<close>

definition resolve :: "world \<Rightarrow> setup_t \<Rightarrow> call list \<times> (halt + setup_t)" where
  "resolve W s =
    seq (perform GetResources) (\<lambda>_.
    seq ([], find_crtc (drm W) s) (\<lambda>(ret, s1).
    seq (BYE_ON (ret \<noteq> 0) ''failed to find valid mode'') (\<lambda>_.
    seq (perform GetPlaneResources) (\<lambda>_.
    seq ([], find_plane (drm W) s1) (\<lambda>(ret, s2).
    seq (BYE_ON (ret \<noteq> 0) ''failed to find compatible plane'') (\<lambda>_.
    ([], Inr s2)))))))"

text \<open>The loop of lines 479 to 490 from index \<open>i\<close>: every buffer is queued to the producer.\<close>

function queue_buffers :: "world \<Rightarrow> buffer list \<Rightarrow> nat \<Rightarrow> call list \<times> (halt + unit)" where
  "queue_buffers W buffer i =
    (if i < length buffer then
       (let c = QBuf (of_nat i) (dbuf_fd (buffer ! i)) (queue_ret (v4l W) i) in
        if queue_ret (v4l W) i < 0 then ([c], Inl (Aborted ''VIDIOC_QBUF for buffer failed''))
        else (case queue_buffers W buffer (Suc i) of (tr', r) \<Rightarrow> (c # tr', r)))
     else ([], Inr ()))"
  by pat_completeness auto
termination
  by (relation "measure (\<lambda>(W, buffer, i). length buffer - i)") auto

declare queue_buffers.simps [simp del]

text \<open>
  Lines 492 to 539: start streaming and run the loop from \<^verbatim>\<open>stream.current_buffer = -1\<close>.
  \<open>Inr 0\<close> is \<^verbatim>\<open>main\<close> returning 0.
\<close>

definition stream :: "world \<Rightarrow> setup_t \<Rightarrow> buffer list \<Rightarrow> call list \<times> (halt + int)" where
  "stream W s buffer =
    seq (perform (StreamOn (streamon_ret (v4l W)))) (\<lambda>_.
    seq (BYE_ON (streamon_ret (v4l W) < 0) ''STREAMON failed'') (\<lambda>_.
    (case handoff s buffer (- 1) (events W) of
       (tr, cur, Exited n) \<Rightarrow> (tr, Inr n)
     | (tr, cur, st) \<Rightarrow> (tr, Inl st))))"

text \<open>
  \<^verbatim>\<open>main\<close>, given the options as \<^verbatim>\<open>getopt\<close> hands them out: the calls of the run and how
  it ends.
\<close>

definition main :: "(char \<times> string) list \<Rightarrow> world \<Rightarrow> call list \<times> (halt + int)" where
  "main opts W =
    (case parse_args opts of
       (ret, s) \<Rightarrow>
         seq (BYE_ON (ret \<noteq> 0) ''failed to parse arguments'') (\<lambda>_.
         seq (BYE_ON (drm_module s = []) ''DRM module is missing'') (\<lambda>_.
         seq (BYE_ON (video s = []) ''video node is missing'') (\<lambda>_.
         seq (negotiate W s) (\<lambda>(s1, sz, pitch).
         seq (create_buffers W s1 sz pitch 0 []) (\<lambda>buffer.
         seq (resolve W s1) (\<lambda>s2.
         seq (queue_buffers W buffer 0) (\<lambda>_.
         stream W s2 buffer))))))))"

section \<open>Reading a run\<close>

text \<open>
  The producer's queue as the calls of a run leave it: a \<^verbatim>\<open>VIDIOC_QBUF\<close> that returned 0
  puts its index in, a \<^verbatim>\<open>VIDIOC_DQBUF\<close> that returned 0 takes the index it reports out.
\<close>

fun queued :: "call list \<Rightarrow> u32 set \<Rightarrow> u32 set" where
  "queued [] q = q"
| "queued (QBuf i fd r # tr) q = queued tr (if r = 0 then insert i q else q)"
| "queued (DQBuf r i # tr) q = queued tr (if r = 0 then q - {i} else q)"
| "queued (c # tr) q = queued tr q"

text \<open>The framebuffer of the last \<^verbatim>\<open>drmModeSetPlane\<close> that returned 0, if there was one.\<close>

fun presented :: "call list \<Rightarrow> u32 option \<Rightarrow> u32 option" where
  "presented [] fb = fb"
| "presented (SetPlane r ret # tr) fb = presented tr (if ret = 0 then Some (sp_fb_id r) else fb)"
| "presented (c # tr) fb = presented tr fb"

text \<open>The \<^verbatim>\<open>VIDIOC_QBUF\<close> calls of a run, and the requests of its \<^verbatim>\<open>drmModeSetPlane\<close> calls.\<close>

fun is_qbuf :: "call \<Rightarrow> bool" where
  "is_qbuf (QBuf i fd r) = True"
| "is_qbuf c = False"

fun presented_reqs :: "call list \<Rightarrow> plane_req list" where
  "presented_reqs [] = []"
| "presented_reqs (SetPlane q r # tr) = q # presented_reqs tr"
| "presented_reqs (c # tr) = presented_reqs tr"

text \<open>The calls that give a resource back to the DRM device.\<close>

fun is_release :: "call \<Rightarrow> bool" where
  "is_release (Close fd) = True"
| "is_release (Destroy_Dumb bo r) = True"
| "is_release c = False"

text \<open>
  A call of the loop that reported a failure to the program, and among them the two
  the loop makes for a new frame.
\<close>

fun failed :: "call \<Rightarrow> bool" where
  "failed (DQBuf r i) = (r \<noteq> 0)"
| "failed (SetPlane q r) = (r \<noteq> 0)"
| "failed (QBuf i fd r) = (r \<noteq> 0)"
| "failed c = False"

fun stream_fault :: "call \<Rightarrow> bool" where
  "stream_fault (DQBuf r i) = (r \<noteq> 0)"
| "stream_fault (SetPlane q r) = (r \<noteq> 0)"
| "stream_fault c = False"

text \<open>
  The resources of the DRM device that are live after the calls of a run, in the order
  they were acquired: dumb buffers (a \<^verbatim>\<open>DESTROY_DUMB\<close> that fails destroys nothing),
  exported descriptors, and framebuffers (the program has no call that removes one).
\<close>

fun live_bos :: "call list \<Rightarrow> u32 list \<Rightarrow> u32 list" where
  "live_bos [] l = l"
| "live_bos (Create_Dumb cw ch bpp sz r bo # tr) l = live_bos tr (if r = 0 then l @ [bo] else l)"
| "live_bos (Destroy_Dumb bo r # tr) l = live_bos tr (if r = 0 then remove1 bo l else l)"
| "live_bos (c # tr) l = live_bos tr l"

fun live_fds :: "call list \<Rightarrow> int list \<Rightarrow> int list" where
  "live_fds [] l = l"
| "live_fds (Prime_Handle_To_FD bo r fd # tr) l = live_fds tr (if r = 0 then l @ [fd] else l)"
| "live_fds (Close fd # tr) l = live_fds tr (remove1 fd l)"
| "live_fds (c # tr) l = live_fds tr l"

fun live_fbs :: "call list \<Rightarrow> u32 list \<Rightarrow> u32 list" where
  "live_fbs [] l = l"
| "live_fbs (AddFB2 cw ch fourcc gem pitch r fb # tr) l = live_fbs tr (if r = 0 then l @ [fb] else l)"
| "live_fbs (c # tr) l = live_fbs tr l"

text \<open>A \<^verbatim>\<open>CREATE_DUMB\<close> that succeeded.\<close>

fun created_dumb :: "call \<Rightarrow> bool" where
  "created_dumb (Create_Dumb cw ch bpp sz r bo) = (r = 0)"
| "created_dumb c = False"

text \<open>
  The stage of \<^verbatim>\<open>main\<close> a call belongs to: 0 for the negotiation with the producer, 1 for
  the construction of the pool, 2 for the resolution of the output, 3 for the resolution
  of the plane, 4 for the registration of the buffers with the producer and the stream.
\<close>

fun phase :: "call \<Rightarrow> nat" where
  "phase (DrmOpen m r) = 0"
| "phase (OpenVideo v r) = 0"
| "phase (QueryCap r) = 0"
| "phase (G_Fmt r) = 0"
| "phase (S_Fmt f r) = 0"
| "phase (ReqBufs n r) = 0"
| "phase (Create_Dumb cw ch bpp sz r bo) = 1"
| "phase (Prime_Handle_To_FD bo r fd) = 1"
| "phase (AddFB2 cw ch fourcc gem pitch r fb) = 1"
| "phase (Close fd) = 1"
| "phase (Destroy_Dumb bo r) = 1"
| "phase GetResources = 2"
| "phase GetPlaneResources = 3"
| "phase (QBuf i fd r) = 4"
| "phase (StreamOn r) = 4"
| "phase (DQBuf r i) = 4"
| "phase (SetPlane q r) = 4"

text \<open>
  What \<^verbatim>\<open>buffer_create\<close> releases when the answers \<open>e\<close> make it fail: nothing when the
  allocation failed, the allocation when the export failed, the exported descriptor and
  then the allocation when the registration of the framebuffer failed.
\<close>

definition created :: "create_env \<Rightarrow> bool" where
  "created e \<longleftrightarrow> create_dumb_ret e = 0 \<and> prime_ret e = 0 \<and> addfb_ret e = 0"

definition rollback :: "create_env \<Rightarrow> call list" where
  "rollback e =
    (if create_dumb_ret e \<noteq> 0 then []
     else if prime_ret e \<noteq> 0 then [Destroy_Dumb (gem_handle e) (destroy_ret e)]
     else [Close (prime_fd e), Destroy_Dumb (gem_handle e) (destroy_ret e)])"

text \<open>
  The calls of the \<open>k\<close>-th \<^verbatim>\<open>buffer_create\<close> of a run, and the buffer it leaves when its
  three requests succeed.
\<close>

definition create_calls :: "world \<Rightarrow> setup_t \<Rightarrow> u32 \<Rightarrow> u32 \<Rightarrow> nat \<Rightarrow> call list" where
  "create_calls W s sz pitch k = fst (buffer_create (creates W k) (junk W) s (ucast sz) pitch)"

definition made :: "create_env \<Rightarrow> buffer" where
  "made e = \<lparr>bo_handle = gem_handle e, fb_handle = addfb_id e, dbuf_fd = prime_fd e\<rparr>"

section \<open>Concrete devices and runs\<close>

text \<open>
  A device with four planes: plane 31 cannot be used with CRTC index 1, plane 32 does
  not support the layout XR24, planes 33 and 34 both can and do.
\<close>

definition XR24 :: u32 where
  "XR24 = 0x34325258"

definition YUYV :: u32 where
  "YUYV = 0x56595559"

definition ex_planes :: "drm_plane list" where
  "ex_planes =
    [\<lparr>plane_id = 31, possible_crtcs = 1, formats = [XR24]\<rparr>,
     \<lparr>plane_id = 32, possible_crtcs = 3, formats = [YUYV]\<rparr>,
     \<lparr>plane_id = 33, possible_crtcs = 2, formats = [YUYV, XR24]\<rparr>,
     \<lparr>plane_id = 34, possible_crtcs = 3, formats = [XR24]\<rparr>]"

definition ex_dev :: drm_dev where
  "ex_dev =
    \<lparr>getResources = Some \<lparr>crtcs = [50, 51], connectors = [60]\<rparr>,
     getConnector = (\<lambda>i. if i = 60
        then Some \<lparr>connector_id = 60, encoder_id = 70, count_modes = 1\<rparr> else None),
     getEncoder = (\<lambda>i. if i = 70 then Some \<lparr>enc_crtc_id = 51\<rparr> else None),
     getCrtc = (\<lambda>i. if i = 51
        then Some \<lparr>crtc_id = 51, crtc_pos_x = 0, crtc_pos_y = 0,
                    crtc_width = 1920, crtc_height = 1080\<rparr>
        else None),
     getPlaneResources = Some [31, 32, 33, 34],
     getPlane = (\<lambda>i. find (\<lambda>p. plane_id p = i) ex_planes)\<rparr>"

definition ex_setup :: setup_t where
  "ex_setup = setup0\<lparr>conId := 60, crtcId := 51, crtcIdx := 1, w := 640, h := 480,
     in_fourcc := YUYV, out_fourcc := XR24, buffer_count := 2\<rparr>"

text \<open>A device that grants every request of one \<^verbatim>\<open>buffer_create\<close>.\<close>

definition ex_create :: "u32 \<Rightarrow> create_env" where
  "ex_create k =
    \<lparr>create_dumb_ret = 0, gem_handle = 1 + k, prime_ret = 0, prime_fd = 5 + uint k,
     addfb_ret = 0, addfb_id = 40 + k, destroy_ret = 0\<rparr>"

definition buffer0 :: buffer where
  "buffer0 = \<lparr>bo_handle = 0, fb_handle = 0, dbuf_fd = 0\<rparr>"

text \<open>
  A pool of two buffers as two successful \<^verbatim>\<open>buffer_create\<close> calls leave it, and the
  answers of the devices to an iteration in which the producer hands out buffer \<open>i\<close> and
  every call succeeds.
\<close>

definition ex_pool :: "buffer list" where
  "ex_pool =
    [\<lparr>bo_handle = 1, fb_handle = 40, dbuf_fd = 5\<rparr>,
     \<lparr>bo_handle = 2, fb_handle = 41, dbuf_fd = 6\<rparr>]"

definition frame :: "u32 \<Rightarrow> loop_event" where
  "frame i =
    \<lparr>poll_ret = 1, revents_v4l = POLLIN, revents_drm = 0,
     dqbuf_ret = 0, dqbuf_index = i, setplane_ret = 0, qbuf_ret = 0\<rparr>"

definition ex_stream :: setup_t where
  "ex_stream = ex_setup\<lparr>planeId := 33,
     compose := \<lparr>left = 0, top_r = 0, width = 1920, height = 1080\<rparr>\<rparr>"

text \<open>
  A video node that accepts every request and reports a 640 by 480 YUYV format, and the
  world made of it, the DRM device above, and the answers \<open>evs\<close> to the loop.
\<close>

definition ex_v4l :: v4l2_dev where
  "ex_v4l =
    \<lparr>open_ret = 4, querycap_ret = 0, capabilities = 0x04200001, g_fmt_ret = 0,
     g_fmt_pix = \<lparr>pix_width = 640, pix_height = 480, pixelformat = YUYV,
                  bytesperline = 1280, sizeimage = 614400\<rparr>,
     s_fmt_ret = (\<lambda>f. 0), g_fmt_final_ret = (\<lambda>f. 0), g_fmt_final_pix = (\<lambda>f. f),
     reqbufs_ret = (\<lambda>n. 0), reqbufs_count = (\<lambda>n. n), queue_ret = (\<lambda>i. 0),
     streamon_ret = 0\<rparr>"

definition ex_world :: "loop_event list \<Rightarrow> world" where
  "ex_world evs =
    \<lparr>drm_open_ret = 3, drm = ex_dev, creates = (\<lambda>i. ex_create (of_nat i)),
     junk = buffer0, v4l = ex_v4l, events = evs\<rparr>"

text \<open>
  The command line \<^verbatim>\<open>-M vc4 -i /dev/video0 -o 60:51 -F XR24 -b n\<close> as \<^verbatim>\<open>getopt\<close> hands it
  out.
\<close>

definition ex_opts :: "string \<Rightarrow> (char \<times> string) list" where
  "ex_opts n =
    [(CHR ''M'', ''vc4''), (CHR ''i'', ''/dev/video0''), (CHR ''o'', ''60:51''),
     (CHR ''F'', ''XR24''), (CHR ''b'', n)]"


definition dq_fail :: loop_event where
  "dq_fail = (frame 0)\<lparr>dqbuf_ret := - 1\<rparr>"

definition timeout :: loop_event where
  "timeout = (frame 0)\<lparr>poll_ret := 0, revents_v4l := 0\<rparr>"

text \<open>The calls of the setup of \<^verbatim>\<open>main\<close> for \<open>ex_opts ''2''\<close> in \<open>ex_world\<close>, up to \<^verbatim>\<open>STREAMON\<close>.\<close>

definition ex_setup_calls :: "call list" where
  "ex_setup_calls =
    [DrmOpen ''vc4'' 3, OpenVideo ''/dev/video0'' 4, QueryCap 0, G_Fmt 0,
     S_Fmt (g_fmt_pix ex_v4l) 0, G_Fmt 0, ReqBufs 2 0,
     Create_Dumb 640 480 32 614400 0 1, Prime_Handle_To_FD 1 0 5,
     AddFB2 640 480 XR24 1 1280 0 40,
     Create_Dumb 640 480 32 614400 0 2, Prime_Handle_To_FD 2 0 6,
     AddFB2 640 480 XR24 2 1280 0 41,
     GetResources, GetPlaneResources, QBuf 0 5 0, QBuf 1 6 0, StreamOn 0]"

text \<open>The world in which the second \<^verbatim>\<open>CREATE_DUMB\<close> fails.\<close>

definition ex_world_nomem :: world where
  "ex_world_nomem = (ex_world [])\<lparr>creates :=
     (\<lambda>i. if i = 1 then (ex_create 1)\<lparr>create_dumb_ret := - 1\<rparr> else ex_create (of_nat i))\<rparr>"

definition NV12 :: u32 where
  "NV12 = 0x3231564E"

text \<open>
  The command line of \<open>ex_opts ''2''\<close> with the presentation layout NV12, which no plane of
  \<open>ex_dev\<close> supports.
\<close>

definition ex_opts_nv12 :: "(char \<times> string) list" where
  "ex_opts_nv12 =
    [(CHR ''M'', ''vc4''), (CHR ''i'', ''/dev/video0''), (CHR ''o'', ''60:51''),
     (CHR ''F'', ''NV12''), (CHR ''b'', ''2'')]"

text \<open>The command line of \<open>ex_opts ''2''\<close> followed by \<^verbatim>\<open>-s 320,240@0,0\<close>.\<close>

definition ex_opts_crop :: "(char \<times> string) list" where
  "ex_opts_crop =
    [(CHR ''M'', ''vc4''), (CHR ''i'', ''/dev/video0''), (CHR ''o'', ''60:51''),
     (CHR ''F'', ''XR24''), (CHR ''b'', ''2''), (CHR ''s'', ''320,240@0,0'')]"

text \<open>The world in which the registration of the second framebuffer fails.\<close>

definition ex_world_nofb :: world where
  "ex_world_nofb = (ex_world [])\<lparr>creates :=
     (\<lambda>i. if i = 1 then (ex_create 1)\<lparr>addfb_ret := - 1\<rparr> else ex_create (of_nat i))\<rparr>"

text \<open>
  The setup that \<^verbatim>\<open>parse_args\<close> leaves for \<open>ex_opts\<close> with the buffer count \<open>n\<close>, the setup
  after the negotiation with \<open>ex_v4l\<close>, and the setup after the resolution on \<open>ex_dev\<close>.
\<close>

definition ex_parsed :: "u32 \<Rightarrow> setup_t" where
  "ex_parsed n = setup0\<lparr>drm_module := ''vc4'', video := ''/dev/video0'', conId := 60,
     crtcId := 51, out_fourcc := XR24, buffer_count := n\<rparr>"

definition ex_negotiated :: "u32 \<Rightarrow> setup_t" where
  "ex_negotiated n = (ex_parsed n)\<lparr>in_fourcc := YUYV, w := 640, h := 480\<rparr>"

definition ex_resolved :: "u32 \<Rightarrow> setup_t" where
  "ex_resolved n = (ex_negotiated n)\<lparr>crtcIdx := 1, planeId := 33,
     compose := \<lparr>left = 0, top_r = 0, width = 1920, height = 1080\<rparr>\<rparr>"

section \<open>Properties of find_plane\<close>

lemma scan_formats_bound: "j \<le> length fs \<Longrightarrow> scan_formats fs c j \<le> length fs"
proof (induction fs c j rule: scan_formats.induct)
  case (1 fs fourcc j)
  then show ?case by (subst scan_formats.simps) auto
qed

lemma scan_formats_miss:
  "j \<le> length fs \<Longrightarrow> scan_formats fs c j = length fs \<longleftrightarrow> c \<notin> set (drop j fs)"
proof (induction fs c j rule: scan_formats.induct)
  case (1 fs fourcc j)
  show ?case
  proof (cases "j < length fs")
    case True
    then have d: "drop j fs = fs ! j # drop (Suc j) fs"
      by (simp add: Cons_nth_drop_Suc)
    show ?thesis
    proof (cases "fs ! j = fourcc")
      case hit: True
      with True d show ?thesis by (subst scan_formats.simps) auto
    next
      case miss: False
      with True have "scan_formats fs fourcc j = scan_formats fs fourcc (Suc j)"
        by (subst scan_formats.simps) simp
      moreover from True miss 1 have
        "scan_formats fs fourcc (Suc j) = length fs \<longleftrightarrow> fourcc \<notin> set (drop (Suc j) fs)"
        by simp
      ultimately show ?thesis using d miss by auto
    qed
  next
    case False
    with 1(2) show ?thesis by (subst scan_formats.simps) simp
  qed
qed

lemma plane_skipped:
  "(possible_crtcs p AND push_bit (nat idx) 1 = 0 \<or>
     scan_formats (formats p) layout 0 = length (formats p)) \<longleftrightarrow>
   \<not> plane_compatible idx layout p"
  by (simp add: plane_compatible_def and_exp_eq_0_iff_not_bit scan_formats_miss)

lemma scan_planes_find:
  assumes ps: "map (getPlane d) ids = map Some ps"
    and idx: "0 \<le> crtcIdx s" "crtcIdx s < 32"
  shows "i \<le> length ids \<Longrightarrow>
    scan_planes d s ids i =
      (case find (plane_compatible (crtcIdx s) (out_fourcc s)) (drop i ps) of
         None \<Rightarrow> Inr (length ids, s)
       | Some p \<Rightarrow>
           Inr (i + length (takeWhile (\<lambda>q. \<not> plane_compatible (crtcIdx s) (out_fourcc s) q)
                  (drop i ps)),
                s\<lparr>planeId := plane_id p\<rparr>))"
proof (induction "length ids - i" arbitrary: i)
  case 0
  from ps have "length (map (getPlane d) ids) = length (map Some ps)" by simp
  then have len: "length ps = length ids" by simp
  from 0 len show ?case by (subst scan_planes.simps) simp
next
  case (Suc n)
  from ps have "length (map (getPlane d) ids) = length (map Some ps)" by simp
  then have len: "length ps = length ids" by simp
  from Suc(2) have lt: "i < length ids" by simp
  with len have d: "drop i ps = ps ! i # drop (Suc i) ps"
    by (simp add: Cons_nth_drop_Suc)
  from lt have "map (getPlane d) ids ! i = getPlane d (ids ! i)" by simp
  moreover from lt len have "map Some ps ! i = Some (ps ! i)" by simp
  ultimately have g: "getPlane d (ids ! i) = Some (ps ! i)" using ps by simp
  show ?case
  proof (cases "plane_compatible (crtcIdx s) (out_fourcc s) (ps ! i)")
    case True
    then have "\<not> (possible_crtcs (ps ! i) AND push_bit (nat (crtcIdx s)) 1 = 0 \<or>
        scan_formats (formats (ps ! i)) (out_fourcc s) 0 = length (formats (ps ! i)))"
      by (simp only: plane_skipped) simp
    with lt g idx True d show ?thesis
      by (subst scan_planes.simps) simp
  next
    case False
    then have sk: "possible_crtcs (ps ! i) AND push_bit (nat (crtcIdx s)) 1 = 0 \<or>
        scan_formats (formats (ps ! i)) (out_fourcc s) 0 = length (formats (ps ! i))"
      by (simp only: plane_skipped) simp
    with lt g idx have step: "scan_planes d s ids i = scan_planes d s ids (Suc i)"
      by (subst scan_planes.simps) auto
    from Suc(2) lt have "n = length ids - Suc i" and "Suc i \<le> length ids" by simp_all
    then have "scan_planes d s ids (Suc i) =
      (case find (plane_compatible (crtcIdx s) (out_fourcc s)) (drop (Suc i) ps) of
         None \<Rightarrow> Inr (length ids, s)
       | Some p \<Rightarrow>
         Inr (Suc i + length (takeWhile (\<lambda>q. \<not> plane_compatible (crtcIdx s) (out_fourcc s) q)
                (drop (Suc i) ps)),
              s\<lparr>planeId := plane_id p\<rparr>))"
      by (rule Suc(1))
    with step d False show ?thesis by (simp split: option.splits)
  qed
qed

lemma find_Some_takeWhile: "find P xs = Some x \<Longrightarrow> length (takeWhile (\<lambda>q. \<not> P q) xs) < length xs"
  by (induction xs) (auto split: if_splits)

text \<open>
  C8. Plane resolution: when the device reports the plane ids \<open>ids\<close> and the planes \<open>ps\<close>
  behind them, \<^verbatim>\<open>find_plane\<close> returns 0 with \<^verbatim>\<open>planeId\<close> set to the id of the first plane of
  \<open>ps\<close>, in the reported order, whose possible-CRTC mask has the bit of \<^verbatim>\<open>crtcIdx\<close> and whose
  formats contain \<^verbatim>\<open>out_fourcc\<close>; it returns -1 and leaves the setup as it was when no plane
  of the list is such a plane. The result is a function of the list, the index and the
  layout alone, so resolving again over the same list picks the same plane.
\<close>

theorem find_plane_first_compatible:
  assumes "getPlaneResources d = Some ids"
    and "map (getPlane d) ids = map Some ps"
    and "0 \<le> crtcIdx s" and "crtcIdx s < 32"
  shows "find_plane d s =
    (case resolve_plane ps (crtcIdx s) (out_fourcc s) of
       None \<Rightarrow> Inr (-1, s)
     | Some p \<Rightarrow> Inr (0, s\<lparr>planeId := plane_id p\<rparr>))"
proof -
  from assms(2) have "length (map (getPlane d) ids) = length (map Some ps)" by simp
  then have len: "length ps = length ids" by simp
  show ?thesis
  proof (cases "resolve_plane ps (crtcIdx s) (out_fourcc s)")
    case None
    with assms show ?thesis
      by (simp add: find_plane_def resolve_plane_def scan_planes_find)
  next
    case (Some p)
    then have "length (takeWhile (\<lambda>q. \<not> plane_compatible (crtcIdx s) (out_fourcc s) q) ps) < length ids"
      using find_Some_takeWhile [of "plane_compatible (crtcIdx s) (out_fourcc s)" ps p] len
      by (simp add: resolve_plane_def)
    with Some assms show ?thesis
      by (simp add: find_plane_def resolve_plane_def scan_planes_find)
  qed
qed


theorem find_plane_first_compatible_witness:
  "find_plane ex_dev ex_setup = Inr (0, ex_setup\<lparr>planeId := 33\<rparr>)"
proof -
  have a: "getPlaneResources ex_dev = Some [31, 32, 33, 34]"
    by (simp add: ex_dev_def)
  have b: "map (getPlane ex_dev) [31, 32, 33, 34] = map Some ex_planes"
    by (simp add: ex_dev_def ex_planes_def)
  have c: "0 \<le> crtcIdx ex_setup" "crtcIdx ex_setup < 32"
    by (simp_all add: ex_setup_def setup0_def)
  have r: "resolve_plane ex_planes (crtcIdx ex_setup) (out_fourcc ex_setup) =
      Some \<lparr>plane_id = 33, possible_crtcs = 2, formats = [YUYV, XR24]\<rparr>"
    by (simp add: resolve_plane_def plane_compatible_def ex_planes_def ex_setup_def
        setup0_def XR24_def YUYV_def)
  show ?thesis
    using find_plane_first_compatible [OF a b c] by (simp add: r)
qed

section \<open>The layout of the framebuffer and the layout of the plane search\<close>

lemma no_plane_without_layout:
  "\<forall>p \<in> set ps. c \<notin> set (formats p) \<Longrightarrow> find (plane_compatible idx c) ps = None"
  by (induction ps) (simp_all add: plane_compatible_def)

text \<open>
  C10. When \<^verbatim>\<open>out_fourcc\<close> is 0 (the caller gave no \<^verbatim>\<open>-F\<close>), a \<^verbatim>\<open>buffer_create\<close> whose three
  requests succeed registers the framebuffer with \<^verbatim>\<open>in_fourcc\<close>, while \<^verbatim>\<open>find_plane\<close> still
  compares the formats of every plane with 0: over a plane list in which no plane lists
  the format 0 it returns -1.
\<close>

theorem omitted_out_fourcc_fb_vs_plane:
  assumes "out_fourcc s = 0"
    and "getPlaneResources d = Some ids"
    and "map (getPlane d) ids = map Some ps"
    and "\<forall>p \<in> set ps. 0 \<notin> set (formats p)"
    and "0 \<le> crtcIdx s" and "crtcIdx s < 32"
    and "create_dumb_ret e = 0" and "prime_ret e = 0" and "addfb_ret e = 0"
  shows "buffer_create e b s sz pitch =
      ([Create_Dumb (w s) (h s) 32 sz 0 (gem_handle e),
        Prime_Handle_To_FD (gem_handle e) 0 (prime_fd e),
        AddFB2 (w s) (h s) (in_fourcc s) (gem_handle e) pitch 0 (addfb_id e)],
       0, \<lparr>bo_handle = gem_handle e, fb_handle = addfb_id e, dbuf_fd = prime_fd e\<rparr>)
    \<and> find_plane d s = Inr (-1, s)"
proof -
  have "resolve_plane ps (crtcIdx s) (out_fourcc s) = None"
    using assms(1,4) by (simp add: resolve_plane_def no_plane_without_layout)
  with scan_planes_find [OF assms(3,5,6), of 0] assms(2)
  have "find_plane d s = Inr (-1, s)"
    by (simp add: find_plane_def resolve_plane_def)
  moreover have "buffer_create e b s sz pitch =
      ([Create_Dumb (w s) (h s) 32 sz 0 (gem_handle e),
        Prime_Handle_To_FD (gem_handle e) 0 (prime_fd e),
        AddFB2 (w s) (h s) (in_fourcc s) (gem_handle e) pitch 0 (addfb_id e)],
       0, \<lparr>bo_handle = gem_handle e, fb_handle = addfb_id e, dbuf_fd = prime_fd e\<rparr>)"
    using assms(1,7,8,9) by (simp add: buffer_create_def fb_fourcc_def Let_def)
  ultimately show ?thesis by simp
qed

theorem omitted_out_fourcc_fb_vs_plane_witness:
  "buffer_create (ex_create 0) buffer0 (ex_setup\<lparr>out_fourcc := 0\<rparr>) 614400 1280 =
      ([Create_Dumb 640 480 32 614400 0 1,
        Prime_Handle_To_FD 1 0 5,
        AddFB2 640 480 YUYV 1 1280 0 40],
       0, \<lparr>bo_handle = 1, fb_handle = 40, dbuf_fd = 5\<rparr>)
    \<and> find_plane ex_dev (ex_setup\<lparr>out_fourcc := 0\<rparr>) = Inr (-1, ex_setup\<lparr>out_fourcc := 0\<rparr>)"
proof -
  have a: "out_fourcc (ex_setup\<lparr>out_fourcc := 0\<rparr>) = 0"
    by simp
  have b: "getPlaneResources ex_dev = Some [31, 32, 33, 34]"
    by (simp add: ex_dev_def)
  have c: "map (getPlane ex_dev) [31, 32, 33, 34] = map Some ex_planes"
    by (simp add: ex_dev_def ex_planes_def)
  have d: "\<forall>p \<in> set ex_planes. 0 \<notin> set (formats p)"
    by (simp add: ex_planes_def XR24_def YUYV_def)
  have i: "0 \<le> crtcIdx (ex_setup\<lparr>out_fourcc := 0\<rparr>)" "crtcIdx (ex_setup\<lparr>out_fourcc := 0\<rparr>) < 32"
    by (simp_all add: ex_setup_def setup0_def)
  have e: "create_dumb_ret (ex_create 0) = 0" "prime_ret (ex_create 0) = 0"
      "addfb_ret (ex_create 0) = 0"
    by (simp_all add: ex_create_def)
  show ?thesis
    using omitted_out_fourcc_fb_vs_plane [OF a b c d i e, of buffer0 614400 1280]
    by (simp add: ex_create_def ex_setup_def setup0_def)
qed

section \<open>Properties of the handoff loop\<close>

lemma handoff_body_no_release:
  "handoff_body s b cur ev = (tr, r) \<Longrightarrow> \<forall>c \<in> set tr. \<not> is_release c"
  by (auto simp add: handoff_body_def Let_def split: if_splits)

lemma handoff_body_phase:
  "handoff_body s b cur ev = (tr, r) \<Longrightarrow> \<forall>c \<in> set tr. phase c = 4"
  by (auto simp add: handoff_body_def Let_def split: if_splits)

lemma handoff_body_ok:
  "handoff_body s b cur ev = (tr, Inr c) \<Longrightarrow> \<forall>x \<in> set tr. \<not> failed x"
  by (auto simp add: handoff_body_def Let_def split: if_splits)

lemma handoff_body_abort:
  "handoff_body s b cur ev = (tr, Inl (Aborted m)) \<Longrightarrow>
     tr \<noteq> [] \<and> failed (last tr) \<and> (\<forall>x \<in> set (butlast tr). \<not> failed x)"
  by (auto simp add: handoff_body_def Let_def split: if_splits)

lemma handoff_body_halt:
  "handoff_body s b cur ev = (tr, Inl st) \<Longrightarrow> (\<exists>m. st = Aborted m) \<or> (\<exists>m. st = Faulted m)"
  by (auto simp add: handoff_body_def Let_def split: if_splits)

lemma handoff_body_faulted:
  "handoff_body s b cur ev = (tr, Inl (Faulted m)) \<Longrightarrow> \<forall>x \<in> set tr. \<not> failed x"
  by (auto simp add: handoff_body_def Let_def split: if_splits)

text \<open>
  Once \<^verbatim>\<open>stream.current_buffer\<close> is not -1 the body never changes it: line 536 reads
  \<^verbatim>\<open>buf.index\<close> after line 528 has overwritten it with \<^verbatim>\<open>stream.current_buffer\<close>. Only
  the first iteration stores the index of the buffer it dequeued.
\<close>

lemma handoff_body_keeps_current:
  "handoff_body s b cur ev = (tr, Inr cur') \<Longrightarrow> cur \<noteq> - 1 \<Longrightarrow> cur' = cur"
  by (auto simp add: handoff_body_def Let_def split: if_splits)

lemma handoff_body_first:
  "handoff_body s b cur ev = (tr, Inr cur') \<Longrightarrow> cur = - 1 \<Longrightarrow> cur' = dqbuf_index ev"
  by (auto simp add: handoff_body_def Let_def split: if_splits)

lemma handoff_keeps_current:
  "cur \<noteq> - 1 \<Longrightarrow> fst (snd (handoff s b cur evs)) = cur"
proof (induction evs)
  case Nil
  then show ?case by simp
next
  case (Cons ev evs)
  obtain t r where body: "handoff_body s b cur ev = (t, r)"
    by (cases "handoff_body s b cur ev")
  show ?case
  proof (cases r)
    case (Inl stop)
    with body show ?thesis by simp
  next
    case (Inr cur')
    with body Cons.prems have "cur' = cur"
      by (simp add: handoff_body_keeps_current)
    with Cons body Inr show ?thesis
      by (auto split: prod.splits)
  qed
qed

lemma handoff_no_release: "\<forall>c \<in> set (fst (handoff s b cur evs)). \<not> is_release c"
proof (induction evs arbitrary: cur)
  case Nil
  then show ?case by simp
next
  case (Cons ev evs)
  obtain t r where body: "handoff_body s b cur ev = (t, r)"
    by (cases "handoff_body s b cur ev")
  then have t: "\<forall>c \<in> set t. \<not> is_release c"
    by (rule handoff_body_no_release)
  show ?case
  proof (cases r)
    case (Inl stop)
    with body t show ?thesis by simp
  next
    case (Inr cur')
    with Cons [of cur'] body t show ?thesis
      by (auto split: prod.splits)
  qed
qed

lemma handoff_phase: "\<forall>c \<in> set (fst (handoff s b cur evs)). phase c = 4"
proof (induction evs arbitrary: cur)
  case Nil
  then show ?case by simp
next
  case (Cons ev evs)
  obtain t r where body: "handoff_body s b cur ev = (t, r)"
    by (cases "handoff_body s b cur ev")
  then have t: "\<forall>c \<in> set t. phase c = 4"
    by (rule handoff_body_phase)
  show ?case
  proof (cases r)
    case (Inl stop)
    with body t show ?thesis by simp
  next
    case (Inr cur')
    with Cons [of cur'] body t show ?thesis
      by (auto split: prod.splits)
  qed
qed

text \<open>
  A failed call is the last call of the loop: every call before it succeeded, and the
  loop ends by \<^verbatim>\<open>abort()\<close>.
\<close>

lemma handoff_failure_is_last:
  "handoff s b cur evs = (tr, c, st) \<Longrightarrow> \<exists>x \<in> set tr. failed x \<Longrightarrow>
     (\<exists>m. st = Aborted m) \<and> failed (last tr) \<and> (\<forall>x \<in> set (butlast tr). \<not> failed x)"
proof (induction evs arbitrary: cur tr)
  case Nil
  then show ?case by simp
next
  case (Cons ev evs)
  from Cons.prems have pos: "poll_ret ev > 0"
    by (auto split: if_splits)
  obtain t r where body: "handoff_body s b cur ev = (t, r)"
    by (cases "handoff_body s b cur ev")
  show ?case
  proof (cases r)
    case (Inl stop)
    with Cons.prems(1) pos body have eq: "tr = t" "st = stop" by simp_all
    from body Inl handoff_body_halt
    consider m where "stop = Aborted m" | m where "stop = Faulted m" by blast
    then show ?thesis
    proof cases
      case 1
      with body Inl eq show ?thesis by (simp add: handoff_body_abort)
    next
      case 2
      with body Inl have "\<forall>x \<in> set t. \<not> failed x" by (simp add: handoff_body_faulted)
      with Cons.prems(2) eq show ?thesis by simp
    qed
  next
    case (Inr cur')
    obtain t' c' st' where rest: "handoff s b cur' evs = (t', c', st')"
      by (cases "handoff s b cur' evs")
    with Cons.prems(1) pos body Inr have eq: "tr = t @ t'" "st = st'" "c = c'" by simp_all
    from body Inr have ok: "\<forall>x \<in> set t. \<not> failed x"
      by (simp add: handoff_body_ok)
    with Cons.prems(2) eq have ex: "\<exists>x \<in> set t'. failed x" by auto
    then have ne: "t' \<noteq> []" by auto
    from Cons.IH [OF _ ex, of cur'] rest eq
    have "(\<exists>m. st = Aborted m) \<and> failed (last t') \<and> (\<forall>x \<in> set (butlast t'). \<not> failed x)"
      by simp
    with ne eq ok show ?thesis by (auto simp add: butlast_append)
  qed
qed

lemma handoff_halt:
  "handoff s b cur evs = (tr, c, st) \<Longrightarrow>
     st = Polling \<or> st = Exited 0 \<or> (\<exists>m. st = Faulted m) \<or>
     st \<in> {Aborted ''VIDIOC_DQBUF failed'', Aborted ''drmModeSetPlane failed'',
            Aborted ''VIDIOC_QBUF failed''}"
proof (induction evs arbitrary: cur tr c st)
  case Nil
  then show ?case by simp
next
  case (Cons ev evs)
  show ?case
  proof (cases "poll_ret ev > 0")
    case False
    with Cons.prems show ?thesis by simp
  next
    case True
    obtain t r where body: "handoff_body s b cur ev = (t, r)"
      by (cases "handoff_body s b cur ev")
    show ?thesis
    proof (cases r)
      case (Inl stop)
      with Cons.prems True body have "st = stop" by simp
      with body Inl show ?thesis
        by (auto simp add: handoff_body_def Let_def split: if_splits)
    next
      case (Inr cur')
      obtain t' c' st' where rest: "handoff s b cur' evs = (t', c', st')"
        by (cases "handoff s b cur' evs")
      with Cons.prems True body Inr have "st = st'" by simp
      with Cons.IH [OF rest] show ?thesis by simp
    qed
  qed
qed

section \<open>The stages of main\<close>

lemma seq_Inl: "m = (t, Inl st) \<Longrightarrow> seq m f = (t, Inl st)"
  by (simp add: seq_def)

lemma seq_Inr: "m = (t, Inr a) \<Longrightarrow> seq m f = (t @ fst (f a), snd (f a))"
  by (simp add: seq_def split: prod.splits)

lemma seq_cases:
  assumes "seq m f = (tr, r)"
  obtains (stop) st where "m = (tr, Inl st)" and "r = Inl st"
  | (go) t1 a t2 where "m = (t1, Inr a)" and "f a = (t2, r)" and "tr = t1 @ t2"
  using assms by (auto simp add: seq_def split: prod.splits sum.splits)

lemma BYE_ON_cases:
  assumes "BYE_ON cond msg = (tr, r)"
  obtains (bye) "cond" and "tr = []" and "r = Inl (Aborted msg)"
  | (pass) "\<not> cond" and "tr = []" and "r = Inr ()"
  using assms by (auto simp add: BYE_ON_def split: if_splits)

lemma seq_calls:
  assumes "\<forall>c \<in> set (fst m). P c" and "\<And>a. \<forall>c \<in> set (fst (f a)). P c"
  shows "\<forall>c \<in> set (fst (seq m f)). P c"
proof (cases m)
  case (Pair t x)
  show ?thesis
  proof (cases x)
    case (Inl st)
    with Pair assms(1) show ?thesis by (simp add: seq_def)
  next
    case (Inr a)
    with Pair assms(1) assms(2) [of a] show ?thesis
      by (auto simp add: seq_def split: prod.splits)
  qed
qed

lemma BYE_ON_calls: "\<forall>c \<in> set (fst (BYE_ON cond msg)). P c"
  by (simp add: BYE_ON_def)

lemma perform_calls: "P c \<Longrightarrow> \<forall>x \<in> set (fst (perform c)). P x"
  by (simp add: perform_def)

lemma negotiate_phase: "\<forall>c \<in> set (fst (negotiate W s)). phase c = 0"
  unfolding negotiate_def Let_def
  by (intro seq_calls BYE_ON_calls perform_calls) simp_all

lemma negotiate_result:
  assumes "negotiate W s = (t, Inr (s1, sz, pitch))"
  shows "buffer_count s1 = buffer_count s \<and> drm_module s1 = drm_module s"
  using assms unfolding negotiate_def Let_def
  by (auto elim!: seq_cases BYE_ON_cases simp add: perform_def)

section \<open>Properties of the construction of the pool\<close>

lemma buffer_create_created:
  "created e \<Longrightarrow> buffer_create e b s sz pitch =
     ([Create_Dumb (w s) (h s) 32 sz 0 (gem_handle e),
       Prime_Handle_To_FD (gem_handle e) 0 (prime_fd e),
       AddFB2 (w s) (h s) (fb_fourcc s) (gem_handle e) pitch 0 (addfb_id e)], 0, made e)"
  by (simp add: buffer_create_def created_def made_def Let_def)

lemma buffer_create_failed:
  "\<not> created e \<Longrightarrow> fst (snd (buffer_create e b s sz pitch)) = - 1 \<and>
     filter is_release (fst (buffer_create e b s sz pitch)) = rollback e"
  by (auto simp add: buffer_create_def created_def rollback_def fail_gem_def fail_prime_def Let_def)

lemma buffer_create_ret:
  "fst (snd (buffer_create e b s sz pitch)) = 0 \<longleftrightarrow> created e"
  by (auto simp add: buffer_create_def created_def Let_def)

lemma buffer_create_phase:
  "\<forall>c \<in> set (fst (buffer_create e b s sz pitch)). phase c = 1"
  by (auto simp add: buffer_create_def fail_gem_def fail_prime_def Let_def)

lemma create_calls_created:
  "created (creates W k) \<Longrightarrow>
     filter is_release (create_calls W s sz pitch k) = [] \<and>
     length (filter created_dumb (create_calls W s sz pitch k)) = 1"
  by (simp add: create_calls_def buffer_create_created)

lemma create_buffers_step_ok:
  assumes "i < unat (buffer_count s)" and "created (creates W i)"
  shows "create_buffers W s sz pitch i acc =
    (create_calls W s sz pitch i @ fst (create_buffers W s sz pitch (Suc i) (acc @ [made (creates W i)])),
     snd (create_buffers W s sz pitch (Suc i) (acc @ [made (creates W i)])))"
  using assms
  by (subst create_buffers.simps)
     (simp add: buffer_create_created create_calls_def split: prod.splits)

lemma create_buffers_step_fail:
  assumes "i < unat (buffer_count s)" and "\<not> created (creates W i)"
  shows "create_buffers W s sz pitch i acc =
    (create_calls W s sz pitch i, Inl (Aborted ''failed to create buffer''))"
proof -
  obtain tr ret b where bc: "buffer_create (creates W i) (junk W) s (ucast sz) pitch = (tr, ret, b)"
    by (cases "buffer_create (creates W i) (junk W) s (ucast sz) pitch")
  with buffer_create_ret [of "creates W i" "junk W" s "ucast sz" pitch] assms(2)
  have "ret \<noteq> 0" by simp
  with assms(1) bc show ?thesis
    by (subst create_buffers.simps) (simp add: create_calls_def)
qed

lemma create_buffers_done:
  "\<not> i < unat (buffer_count s) \<Longrightarrow> create_buffers W s sz pitch i acc = ([], Inr acc)"
  by (subst create_buffers.simps) simp

lemma create_buffers_all:
  assumes "\<forall>k. i \<le> k \<and> k < unat (buffer_count s) \<longrightarrow> created (creates W k)"
    and "i \<le> unat (buffer_count s)"
  shows "create_buffers W s sz pitch i acc =
    (concat (map (create_calls W s sz pitch) [i..<unat (buffer_count s)]),
     Inr (acc @ map (\<lambda>k. made (creates W k)) [i..<unat (buffer_count s)]))"
  using assms
proof (induction "unat (buffer_count s) - i" arbitrary: i acc)
  case 0
  then show ?case by (simp add: create_buffers_done)
next
  case (Suc n)
  then have lt: "i < unat (buffer_count s)" by simp
  with Suc.prems have ok: "created (creates W i)" by simp
  from Suc.hyps(2) lt have n: "n = unat (buffer_count s) - Suc i" by simp
  from Suc.prems lt have rest:
    "\<forall>k. Suc i \<le> k \<and> k < unat (buffer_count s) \<longrightarrow> created (creates W k)"
    "Suc i \<le> unat (buffer_count s)" by simp_all
  from Suc.hyps(1) [OF n rest] create_buffers_step_ok [OF lt ok] lt
  show ?case by (simp add: upt_conv_Cons)
qed

lemma create_buffers_first_failure:
  assumes "\<forall>k. i \<le> k \<and> k < j \<longrightarrow> created (creates W k)"
    and "\<not> created (creates W j)"
    and "i \<le> j" and "j < unat (buffer_count s)"
  shows "create_buffers W s sz pitch i acc =
    (concat (map (create_calls W s sz pitch) [i..<j]) @ create_calls W s sz pitch j,
     Inl (Aborted ''failed to create buffer''))"
  using assms
proof (induction "j - i" arbitrary: i acc)
  case 0
  then have "i = j" by simp
  with 0 show ?case by (simp add: create_buffers_step_fail)
next
  case (Suc n)
  then have lt: "i < j" by simp
  with Suc.prems have ok: "created (creates W i)" and lt': "i < unat (buffer_count s)" by simp_all
  from Suc.hyps(2) lt have n: "n = j - Suc i" by simp
  from Suc.prems lt have rest: "\<forall>k. Suc i \<le> k \<and> k < j \<longrightarrow> created (creates W k)"
    "Suc i \<le> j" by simp_all
  from Suc.hyps(1) [OF n rest(1) Suc.prems(2) rest(2) Suc.prems(4)]
    create_buffers_step_ok [OF lt' ok] lt
  show ?case by (simp add: upt_conv_Cons)
qed

lemma create_buffers_phase:
  "\<forall>c \<in> set (fst (create_buffers W s sz pitch i acc)). phase c = 1"
proof (induction "unat (buffer_count s) - i" arbitrary: i acc)
  case 0
  then show ?case by (simp add: create_buffers_done)
next
  case (Suc n)
  then have lt: "i < unat (buffer_count s)" by simp
  with Suc.hyps(2) have n: "n = unat (buffer_count s) - Suc i" by simp
  have cc: "\<forall>c \<in> set (create_calls W s sz pitch i). phase c = 1"
    by (simp add: create_calls_def buffer_create_phase)
  show ?case
  proof (cases "created (creates W i)")
    case True
    with create_buffers_step_ok [OF lt True] Suc.hyps(1) [OF n] cc show ?thesis by auto
  next
    case False
    with create_buffers_step_fail [OF lt False] cc show ?thesis by simp
  qed
qed

text \<open>
  When the loop completes, every \<^verbatim>\<open>buffer_create\<close> succeeded: as many dumb buffers were
  allocated as \<^verbatim>\<open>buffer_count\<close> says, and nothing was released.
\<close>

lemma create_buffers_Inr:
  assumes "create_buffers W s sz pitch i acc = (t, Inr bufs)" and "i \<le> unat (buffer_count s)"
  shows "filter is_release t = [] \<and>
    length (filter created_dumb t) = unat (buffer_count s) - i \<and>
    length bufs = length acc + (unat (buffer_count s) - i)"
  using assms
proof (induction "unat (buffer_count s) - i" arbitrary: i acc t)
  case 0
  then show ?case by (simp add: create_buffers_done)
next
  case (Suc n)
  then have lt: "i < unat (buffer_count s)" by simp
  with Suc.hyps(2) have n: "n = unat (buffer_count s) - Suc i" by simp
  show ?case
  proof (cases "created (creates W i)")
    case False
    with create_buffers_step_fail [OF lt False] Suc.prems show ?thesis by simp
  next
    case True
    obtain t' r' where rest:
      "create_buffers W s sz pitch (Suc i) (acc @ [made (creates W i)]) = (t', r')"
      by (cases "create_buffers W s sz pitch (Suc i) (acc @ [made (creates W i)])")
    with create_buffers_step_ok [OF lt True, of sz pitch acc] Suc.prems(1)
    have eq: "t = create_calls W s sz pitch i @ t'" "r' = Inr bufs" by simp_all
    from lt have "Suc i \<le> unat (buffer_count s)" by simp
    from Suc.hyps(1) [OF n _ this] rest eq
    have "filter is_release t' = [] \<and>
      length (filter created_dumb t') = unat (buffer_count s) - Suc i \<and>
      length bufs = length (acc @ [made (creates W i)]) + (unat (buffer_count s) - Suc i)"
      by simp
    with eq create_calls_created [OF True, of s sz pitch] lt show ?thesis by auto
  qed
qed

lemma queue_buffers_phase: "\<forall>c \<in> set (fst (queue_buffers W buffer i)). phase c = 4"
proof (induction "length buffer - i" arbitrary: i)
  case 0
  then show ?case by (subst queue_buffers.simps) simp
next
  case (Suc n)
  then have "n = length buffer - Suc i" by simp
  from Suc.hyps(1) [OF this] show ?case
    by (subst queue_buffers.simps) (auto simp add: Let_def split: prod.splits)
qed

lemma queue_buffers_all:
  assumes "\<forall>k < length buffer. 0 \<le> queue_ret (v4l W) k"
  shows "queue_buffers W buffer i =
    (map (\<lambda>k. QBuf (of_nat k) (dbuf_fd (buffer ! k)) (queue_ret (v4l W) k)) [i..<length buffer],
     Inr ())"
proof (induction "length buffer - i" arbitrary: i)
  case 0
  then show ?case by (subst queue_buffers.simps) simp
next
  case (Suc n)
  then have lt: "i < length buffer" and "n = length buffer - Suc i" by simp_all
  from assms lt have "\<not> queue_ret (v4l W) i < 0" by (simp add: not_less)
  with Suc.hyps(1) [OF \<open>n = length buffer - Suc i\<close>] lt show ?case
    by (subst queue_buffers.simps) (simp add: Let_def upt_conv_Cons)
qed

section \<open>The run of main\<close>

lemma choose_connector_halt:
  "choose_connector d ids s = Inl st \<Longrightarrow> \<exists>m. st = Faulted m"
  by (induction d ids s rule: choose_connector.induct)
     (auto split: option.splits if_splits sum.splits)

lemma find_crtc_halt:
  "find_crtc d s = Inl st \<Longrightarrow> st = Exited 1 \<or> (\<exists>m. st = Faulted m)"
  by (auto simp add: find_crtc_def Let_def dest: choose_connector_halt
      split: option.splits if_splits sum.splits)

lemma scan_planes_halt:
  "scan_planes d s ids i = Inl st \<Longrightarrow> \<exists>m. st = Faulted m"
proof (induction "length ids - i" arbitrary: i)
  case 0
  then show ?case by (subst (asm) scan_planes.simps) simp
next
  case (Suc n)
  then have n: "n = length ids - Suc i" by simp
  from Suc.prems Suc.hyps(1) [OF n] show ?case
    by (subst (asm) scan_planes.simps) (auto split: if_splits option.splits)
qed

lemma find_plane_halt:
  "find_plane d s = Inl st \<Longrightarrow> \<exists>m. st = Faulted m"
  by (auto simp add: find_plane_def dest: scan_planes_halt
      split: option.splits sum.splits prod.splits)

lemma resolve_no_plane:
  assumes "resolve W s = (t, Inl (Aborted ''failed to find compatible plane''))"
  shows "t = [GetResources, GetPlaneResources]"
proof -
  have a: "find_crtc (drm W) s \<noteq> Inl (Aborted ''failed to find compatible plane'')"
    using find_crtc_halt by fastforce
  have b: "\<And>s1. find_plane (drm W) s1 \<noteq> Inl (Aborted ''failed to find compatible plane'')"
    using find_plane_halt by fastforce
  from assms a b show ?thesis
    by (auto simp add: resolve_def seq_def perform_def BYE_ON_def
        split: sum.splits prod.splits if_splits)
qed

lemma resolve_trace:
  "fst (resolve W s) = [GetResources] \<or> fst (resolve W s) = [GetResources, GetPlaneResources]"
  by (auto simp add: resolve_def seq_def perform_def BYE_ON_def
      split: sum.splits prod.splits if_splits)

lemma resolve_Inr:
  "resolve W s = (t, Inr s2) \<Longrightarrow> t = [GetResources, GetPlaneResources]"
  by (auto simp add: resolve_def seq_def perform_def BYE_ON_def
      split: sum.splits prod.splits if_splits)

lemma stream_trace:
  "fst (stream W s b) = [StreamOn (streamon_ret (v4l W))] \<or>
   fst (stream W s b) = StreamOn (streamon_ret (v4l W)) # fst (handoff s b (- 1) (events W))"
  by (auto simp add: stream_def seq_def perform_def BYE_ON_def
      split: sum.splits prod.splits if_splits halt.splits)

lemma main_cases:
  assumes "main opts W = (tr, r)"
  obtains
    (args) m where "tr = []" and "r = Inl (Aborted m)"
      and "m \<in> {''failed to parse arguments'', ''DRM module is missing'', ''video node is missing''}"
  | (negotiate) s st where "parse_args opts = (0, s)"
      and "negotiate W s = (tr, Inl st)" and "r = Inl st"
  | (pool) s s1 sz pitch t1 t2 st where "parse_args opts = (0, s)"
      and "negotiate W s = (t1, Inr (s1, sz, pitch))"
      and "create_buffers W s1 sz pitch 0 [] = (t2, Inl st)"
      and "tr = t1 @ t2" and "r = Inl st"
  | (resolve) s s1 sz pitch t1 t2 buffer t3 st where "parse_args opts = (0, s)"
      and "negotiate W s = (t1, Inr (s1, sz, pitch))"
      and "create_buffers W s1 sz pitch 0 [] = (t2, Inr buffer)"
      and "resolve W s1 = (t3, Inl st)"
      and "tr = t1 @ t2 @ t3" and "r = Inl st"
  | (queue) s s1 sz pitch t1 t2 buffer t3 s2 t4 st where "parse_args opts = (0, s)"
      and "negotiate W s = (t1, Inr (s1, sz, pitch))"
      and "create_buffers W s1 sz pitch 0 [] = (t2, Inr buffer)"
      and "resolve W s1 = (t3, Inr s2)"
      and "queue_buffers W buffer 0 = (t4, Inl st)"
      and "tr = t1 @ t2 @ t3 @ t4" and "r = Inl st"
  | (stream) s s1 sz pitch t1 t2 buffer t3 s2 t4 t5 where "parse_args opts = (0, s)"
      and "negotiate W s = (t1, Inr (s1, sz, pitch))"
      and "create_buffers W s1 sz pitch 0 [] = (t2, Inr buffer)"
      and "resolve W s1 = (t3, Inr s2)"
      and "queue_buffers W buffer 0 = (t4, Inr ())"
      and "stream W s2 buffer = (t5, r)"
      and "tr = t1 @ t2 @ t3 @ t4 @ t5"
proof -
  obtain ret s where p: "parse_args opts = (ret, s)"
    by (cases "parse_args opts")
  from assms p have m: "seq (BYE_ON (ret \<noteq> 0) ''failed to parse arguments'') (\<lambda>_.
         seq (BYE_ON (drm_module s = []) ''DRM module is missing'') (\<lambda>_.
         seq (BYE_ON (video s = []) ''video node is missing'') (\<lambda>_.
         seq (negotiate W s) (\<lambda>(s1, sz, pitch).
         seq (create_buffers W s1 sz pitch 0 []) (\<lambda>buffer.
         seq (resolve W s1) (\<lambda>s2.
         seq (queue_buffers W buffer 0) (\<lambda>_.
         stream W s2 buffer))))))) = (tr, r)"
    by (simp add: main_def)
  from m show thesis
  proof (cases rule: seq_cases)
    case (stop st)
    then show ?thesis by (auto elim!: BYE_ON_cases intro: args)
  next
    case (go t1 a t2)
    from go(1) have ret: "ret = 0" and t1: "t1 = []" by (auto elim: BYE_ON_cases)
    from go(2) show ?thesis
    proof (cases rule: seq_cases)
      case (stop st)
      with go(3) t1 show ?thesis by (auto elim!: BYE_ON_cases intro: args)
    next
      case (go ta aa tb)
      from go(1) have ta: "ta = []" by (auto elim: BYE_ON_cases)
      from go(2) show ?thesis
      proof (cases rule: seq_cases)
        case (stop st)
        with \<open>tr = t1 @ t2\<close> t1 \<open>t2 = ta @ tb\<close> ta show ?thesis
          by (auto elim!: BYE_ON_cases intro: args)
      next
        case (go tc ac td)
        from go(1) have tc: "tc = []" by (auto elim: BYE_ON_cases)
        from \<open>tr = t1 @ t2\<close> t1 \<open>t2 = ta @ tb\<close> ta \<open>tb = tc @ td\<close> tc
        have tr: "tr = td" by simp
        from go(2) show ?thesis
        proof (cases rule: seq_cases)
          case (stop st)
          with tr p ret show ?thesis by (auto intro: negotiate)
        next
          case (go u1 n u2)
          obtain s1 sz pitch where n: "n = (s1, sz, pitch)" by (cases n)
          with go(2) have "seq (create_buffers W s1 sz pitch 0 []) (\<lambda>buffer.
             seq (resolve W s1) (\<lambda>s2.
             seq (queue_buffers W buffer 0) (\<lambda>_.
             stream W s2 buffer))) = (u2, r)" by simp
          then show ?thesis
          proof (cases rule: seq_cases)
            case (stop st)
            with tr p ret go(1,3) n show ?thesis by (auto intro: pool)
          next
            case inner: (go v1 buffer v2)
            from inner(2) show ?thesis
            proof (cases rule: seq_cases)
              case (stop st)
              with tr p ret go(1,3) n inner(1,3) show ?thesis by (auto intro: resolve)
            next
              case res: (go x1 s2 x2)
              from res(2) show ?thesis
              proof (cases rule: seq_cases)
                case (stop st)
                with tr p ret go(1,3) n inner(1,3) res(1,3) show ?thesis
                  by (auto intro: queue)
              next
                case q: (go y1 u y2)
                with tr p ret go(1,3) n inner(1,3) res(1,3) show ?thesis
                  by (auto intro: stream)
              qed
            qed
          qed
        qed
      qed
    qed
  qed
qed

lemma release_phase: "is_release c \<Longrightarrow> phase c = 1"
  by (cases c) simp_all

lemma stream_fault_phase: "stream_fault c \<Longrightarrow> phase c = 4"
  by (cases c) simp_all

lemma stream_fault_failed: "stream_fault c \<Longrightarrow> failed c"
  by (cases c) simp_all

lemma sorted_same_phase: "\<forall>c \<in> set t. phase c = k \<Longrightarrow> sorted (map phase t)"
  by (induction t) simp_all

lemma queue_buffers_no_fault: "\<forall>c \<in> set (fst (queue_buffers W buffer i)). \<not> stream_fault c"
proof (induction "length buffer - i" arbitrary: i)
  case 0
  then show ?case by (subst queue_buffers.simps) simp
next
  case (Suc n)
  then have "n = length buffer - Suc i" by simp
  from Suc.hyps(1) [OF this] show ?case
    by (subst queue_buffers.simps) (auto simp add: Let_def split: prod.splits)
qed

lemma queue_buffers_Inl:
  "queue_buffers W buffer i = (t, Inl st) \<Longrightarrow> st = Aborted ''VIDIOC_QBUF for buffer failed''"
proof (induction "length buffer - i" arbitrary: i t)
  case 0
  then show ?case by (subst (asm) queue_buffers.simps) simp
next
  case (Suc n)
  then have n: "n = length buffer - Suc i" by simp
  from Suc.prems Suc.hyps(1) [OF n] show ?case
    by (subst (asm) queue_buffers.simps) (auto simp add: Let_def split: if_splits prod.splits)
qed

lemma create_buffers_Inl:
  "create_buffers W s sz pitch i acc = (t, Inl st) \<Longrightarrow> st = Aborted ''failed to create buffer''"
proof (induction "unat (buffer_count s) - i" arbitrary: i acc t)
  case 0
  then show ?case by (simp add: create_buffers_done)
next
  case (Suc n)
  then have lt: "i < unat (buffer_count s)" by simp
  with Suc.hyps(2) have n: "n = unat (buffer_count s) - Suc i" by simp
  show ?case
  proof (cases "created (creates W i)")
    case False
    with create_buffers_step_fail [OF lt False] Suc.prems show ?thesis by simp
  next
    case True
    obtain t' r' where rest:
      "create_buffers W s sz pitch (Suc i) (acc @ [made (creates W i)]) = (t', r')"
      by (cases "create_buffers W s sz pitch (Suc i) (acc @ [made (creates W i)])")
    with create_buffers_step_ok [OF lt True, of sz pitch acc] Suc.prems
    have "r' = Inl st" by simp
    with rest Suc.hyps(1) [OF n] show ?thesis by simp
  qed
qed

lemma negotiate_Inl:
  "negotiate W s = (t, Inl st) \<Longrightarrow>
     st \<noteq> Aborted ''failed to find compatible plane''"
  unfolding negotiate_def Let_def
  by (auto elim!: seq_cases BYE_ON_cases simp add: perform_def)

lemma stream_cases:
  assumes "stream W s b = (t, r)"
  obtains (off) "t = [StreamOn (streamon_ret (v4l W))]" and "r = Inl (Aborted ''STREAMON failed'')"
  | (on) tr c st where "handoff s b (- 1) (events W) = (tr, c, st)"
      and "t = StreamOn (streamon_ret (v4l W)) # tr"
      and "r = (case st of Exited n \<Rightarrow> Inr n | _ \<Rightarrow> Inl st)"
  using assms
  by (auto simp add: stream_def seq_def perform_def BYE_ON_def
      split: sum.splits prod.splits if_splits halt.splits)

lemma stream_phase: "\<forall>c \<in> set (fst (stream W s b)). phase c = 4"
  using stream_trace [of W s b] handoff_phase [of s b "- 1" "events W"] by auto

lemma stream_no_release: "\<forall>c \<in> set (fst (stream W s b)). \<not> is_release c"
  using stream_phase [of W s b] release_phase by fastforce

lemma handoff_stream_fault:
  assumes "handoff s b cur evs = (tr, c, st)" and "\<exists>x \<in> set tr. stream_fault x"
  shows "(\<exists>m. st = Aborted m) \<and> tr \<noteq> [] \<and> stream_fault (last tr) \<and>
    (\<forall>y \<in> set (butlast tr). \<not> stream_fault y)"
proof -
  from assms(2) obtain x where x: "x \<in> set tr" "stream_fault x" by blast
  then have f: "\<exists>x \<in> set tr. failed x" using stream_fault_failed by blast
  from handoff_failure_is_last [OF assms(1) f]
  have st: "\<exists>m. st = Aborted m" and bl: "\<forall>y \<in> set (butlast tr). \<not> failed y" by simp_all
  from x have ne: "tr \<noteq> []" by auto
  from x bl stream_fault_failed have "x \<notin> set (butlast tr)" by blast
  with x(1) ne have "x = last tr"
    by (metis append_butlast_last_id rotate1.simps(2) set_ConsD set_rotate1)
  moreover from bl stream_fault_failed have "\<forall>y \<in> set (butlast tr). \<not> stream_fault y"
    by blast
  ultimately show ?thesis using x st ne by simp
qed

section \<open>The handoff of buffers\<close>

text \<open>
  What the loop does get right: the first iteration gives nothing back to the producer,
  and a later iteration that completes gives back exactly one buffer, the one
  \<^verbatim>\<open>stream.current_buffer\<close> names. Since that variable stops changing after the first
  iteration (\<open>handoff_keeps_current\<close>), this is the first buffer ever dequeued, whatever
  was presented meanwhile.
\<close>

lemma first_iteration_requeues_nothing:
  "filter is_qbuf (fst (handoff_body s b (- 1) ev)) = []"
  by (simp add: handoff_body_def Let_def)

lemma later_iteration_requeues_current:
  "cur \<noteq> - 1 \<Longrightarrow> handoff_body s b cur ev = (tr, Inr c) \<Longrightarrow>
     filter is_qbuf tr = [QBuf cur (dbuf_fd (b ! nat (sint cur))) 0]"
  by (auto simp add: handoff_body_def Let_def split: if_splits)

text \<open>
  C1. The delay-by-one rule asks that the buffer given back to the producer in an
  iteration be the buffer that was presented before this iteration's new buffer, and
  never the new buffer itself. The loop breaks it in the run with two buffers in which
  the producer hands out buffer 0, buffer 1 and buffer 0 again: in the third iteration
  the buffer given back is buffer 0, the buffer dequeued and presented in that same
  iteration, and not buffer 1, which was on the screen before it;
  \<^verbatim>\<open>stream.current_buffer\<close> is still 0.
\<close>

theorem third_frame_requeues_presented_buffer:
  "main (ex_opts ''2'') (ex_world [frame 0, frame 1, frame 0]) =
    (ex_setup_calls @
     [DQBuf 0 0, SetPlane (set_plane_req ex_stream 40) 0,
      DQBuf 0 1, SetPlane (set_plane_req ex_stream 41) 0, QBuf 0 5 0,
      DQBuf 0 0, SetPlane (set_plane_req ex_stream 40) 0, QBuf 0 5 0],
     Inl Polling)
   \<and> fst (snd (handoff ex_stream ex_pool (- 1) [frame 0, frame 1, frame 0])) = 0"
  by code_simp

text \<open>
  C2. The invariant asks that the buffer last passed to \<^verbatim>\<open>drmModeSetPlane\<close> never be among
  the buffers queued to the producer. The loop breaks it with two buffers: after the
  same run the framebuffer on the screen is 40, the framebuffer of buffer 0 (the first of
  the pool), and the producer's queue holds buffer 0. Buffer 1 is neither presented nor
  queued.
\<close>

theorem presented_buffer_is_queued:
  "presented (fst (main (ex_opts ''2'') (ex_world [frame 0, frame 1, frame 0]))) None = Some 40
   \<and> live_fbs (fst (main (ex_opts ''2'') (ex_world [frame 0, frame 1, frame 0]))) [] = [40, 41]
   \<and> queued (fst (main (ex_opts ''2'') (ex_world [frame 0, frame 1, frame 0]))) {} = {0}"
  by code_simp

text \<open>
  The loop never reads \<^verbatim>\<open>revents\<close>: whatever \<^verbatim>\<open>poll\<close> reports for the two descriptors,
  the run is the same, and every iteration entered (\<^verbatim>\<open>poll\<close> returned more than 0) starts
  with a \<^verbatim>\<open>VIDIOC_DQBUF\<close>, which on the blocking video node waits for a completed frame.
\<close>

lemma handoff_ignores_revents:
  "handoff s b cur (ev\<lparr>revents_v4l := rv, revents_drm := rd\<rparr> # evs) = handoff s b cur (ev # evs)
   \<and> (0 < poll_ret ev \<longrightarrow>
        (\<exists>tr. fst (handoff s b cur (ev # evs)) = DQBuf (dqbuf_ret ev) (dqbuf_index ev) # tr))"
  by (auto simp add: handoff_body_def Let_def split: prod.splits sum.splits)



section \<open>Failures and the order of the setup\<close>

text \<open>
  C7, as the specification states it, fails: in this run the fifth \<^verbatim>\<open>VIDIOC_DQBUF\<close> fails. The
  run ends by \<^verbatim>\<open>abort()\<close> with that call as its last, and the two dumb buffers, their two
  descriptors and their two framebuffers are all still live: nothing is torn down.
\<close>

theorem dequeue_failure_leaves_pool_live:
  "snd (main (ex_opts ''2'') (ex_world [frame 0, frame 1, frame 0, frame 0, dq_fail])) =
      Inl (Aborted ''VIDIOC_DQBUF failed'')
   \<and> last (fst (main (ex_opts ''2'') (ex_world [frame 0, frame 1, frame 0, frame 0, dq_fail]))) =
      DQBuf (- 1) 0
   \<and> live_fbs (fst (main (ex_opts ''2'') (ex_world [frame 0, frame 1, frame 0, frame 0, dq_fail]))) [] =
      [40, 41]
   \<and> live_fds (fst (main (ex_opts ''2'') (ex_world [frame 0, frame 1, frame 0, frame 0, dq_fail]))) [] =
      [5, 6]
   \<and> live_bos (fst (main (ex_opts ''2'') (ex_world [frame 0, frame 1, frame 0, frame 0, dq_fail]))) [] =
      [1, 2]"
  by code_simp

text \<open>
  C7, amended. In every run of \<^verbatim>\<open>main\<close> in which a \<^verbatim>\<open>VIDIOC_DQBUF\<close> or a
  \<^verbatim>\<open>drmModeSetPlane\<close> fails, the run ends by \<^verbatim>\<open>abort()\<close>, the failed call is the last call
  of the run and the only such failure in it (no dequeue or presentation failed before
  it: nothing is retried, nothing follows), and no call of the whole run releases a
  resource of the pool.
\<close>

theorem stream_fault_aborts_without_teardown:
  assumes "main opts W = (tr, r)" and "\<exists>c \<in> set tr. stream_fault c"
  shows "(\<exists>m. r = Inl (Aborted m)) \<and> tr \<noteq> [] \<and> stream_fault (last tr) \<and>
    (\<forall>c \<in> set (butlast tr). \<not> stream_fault c) \<and>
    (\<forall>c \<in> set tr. \<not> is_release c)"
  using assms(1)
proof (cases rule: main_cases)
  case (args m)
  with assms(2) show ?thesis by simp
next
  case (negotiate s st)
  with negotiate_phase [of W s] assms(2) stream_fault_phase show ?thesis by fastforce
next
  case (pool s s1 sz pitch t1 t2 st)
  with negotiate_phase [of W s] create_buffers_phase [of W s1 sz pitch 0 "[]"]
    assms(2) stream_fault_phase
  show ?thesis by fastforce
next
  case (resolve s s1 sz pitch t1 t2 buffer t3 st)
  with negotiate_phase [of W s] create_buffers_phase [of W s1 sz pitch 0 "[]"]
    resolve_trace [of W s1] assms(2) stream_fault_phase
  show ?thesis by fastforce
next
  case (queue s s1 sz pitch t1 t2 buffer t3 s2 t4 st)
  with negotiate_phase [of W s] create_buffers_phase [of W s1 sz pitch 0 "[]"]
    resolve_trace [of W s1] queue_buffers_no_fault [of W buffer 0] assms(2) stream_fault_phase
  show ?thesis by fastforce
next
  case (stream s s1 sz pitch t1 t2 buffer t3 s2 t4 t5)
  have p1: "\<forall>c \<in> set t1. phase c = 0"
    using negotiate_phase [of W s] stream(2) by simp
  have p2: "\<forall>c \<in> set t2. phase c = 1"
    using create_buffers_phase [of W s1 sz pitch 0 "[]"] stream(3) by simp
  have r2: "filter is_release t2 = []"
    using create_buffers_Inr [OF stream(3)] by simp
  have p3: "t3 = [GetResources, GetPlaneResources]"
    using resolve_Inr [OF stream(4)] .
  have p4: "\<forall>c \<in> set t4. phase c = 4 \<and> \<not> stream_fault c"
    using queue_buffers_phase [of W buffer 0] queue_buffers_no_fault [of W buffer 0] stream(5)
    by simp
  have p5: "\<forall>c \<in> set t5. \<not> is_release c"
    using stream_no_release [of W s2 buffer] stream(6) by simp
  have before: "\<forall>c \<in> set (t1 @ t2 @ t3 @ t4). \<not> stream_fault c \<and> \<not> is_release c"
  proof
    fix c assume "c \<in> set (t1 @ t2 @ t3 @ t4)"
    then consider "c \<in> set t1" | "c \<in> set t2" | "c \<in> set t3" | "c \<in> set t4" by auto
    then show "\<not> stream_fault c \<and> \<not> is_release c"
    proof cases
      case 1
      with p1 stream_fault_phase [of c] release_phase [of c] show ?thesis by fastforce
    next
      case 2
      with p2 r2 stream_fault_phase [of c] show ?thesis
        by (fastforce simp add: filter_empty_conv)
    next
      case 3
      with p3 show ?thesis by auto
    next
      case 4
      with p4 release_phase [of c] show ?thesis by fastforce
    qed
  qed
  with assms(2) stream(7) have in5: "\<exists>c \<in> set t5. stream_fault c" by auto
  from stream(6) show ?thesis
  proof (cases rule: stream_cases)
    case off
    with in5 show ?thesis by simp
  next
    case (on tr' c st)
    with in5 have "\<exists>x \<in> set tr'. stream_fault x" by simp
    from handoff_stream_fault [OF on(1) this] obtain m where
      m: "st = Aborted m" and ne: "tr' \<noteq> []" and l: "stream_fault (last tr')"
      and bl: "\<forall>y \<in> set (butlast tr'). \<not> stream_fault y" by blast
    from on(2) ne have "t5 \<noteq> []" "last t5 = last tr'" by simp_all
    with stream(7) have "tr \<noteq> []" "last tr = last tr'" by simp_all
    moreover from on(3) m have "r = Inl (Aborted m)" by simp
    moreover have "\<forall>c \<in> set (butlast tr). \<not> stream_fault c"
    proof -
      from stream(7) on(2) ne
      have "butlast tr = (t1 @ t2 @ t3 @ t4) @ StreamOn (streamon_ret (v4l W)) # butlast tr'"
        by (simp add: butlast_append)
      with before bl show ?thesis by auto
    qed
    moreover from before p5 stream(7) have "\<forall>c \<in> set tr. \<not> is_release c" by auto
    ultimately show ?thesis using l by simp
  qed
qed

theorem stream_fault_aborts_without_teardown_witness:
  "(\<exists>m. snd (main (ex_opts ''2'') (ex_world [frame 0, dq_fail])) = Inl (Aborted m))
   \<and> fst (main (ex_opts ''2'') (ex_world [frame 0, dq_fail])) \<noteq> []
   \<and> stream_fault (last (fst (main (ex_opts ''2'') (ex_world [frame 0, dq_fail]))))
   \<and> list_all (\<lambda>c. \<not> stream_fault c)
        (butlast (fst (main (ex_opts ''2'') (ex_world [frame 0, dq_fail]))))
   \<and> list_all (\<lambda>c. \<not> is_release c) (fst (main (ex_opts ''2'') (ex_world [frame 0, dq_fail])))"
proof -
  have run: "main (ex_opts ''2'') (ex_world [frame 0, dq_fail]) =
      (ex_setup_calls @ [DQBuf 0 0, SetPlane (set_plane_req ex_stream 40) 0, DQBuf (- 1) 0],
       Inl (Aborted ''VIDIOC_DQBUF failed''))"
    by code_simp
  have "\<exists>c \<in> set (ex_setup_calls @
      [DQBuf 0 0, SetPlane (set_plane_req ex_stream 40) 0, DQBuf (- 1) 0]). stream_fault c"
    by simp
  from stream_fault_aborts_without_teardown [OF run this] run
  show ?thesis by (simp add: list_all_iff)
qed

text \<open>
  C4, as the specification states it, fails: with a presentation layout that no plane supports,
  the run aborts in the plane resolution only after both buffers of the pool have been
  allocated, exported and registered as framebuffers.
\<close>

theorem no_plane_found_after_pool_built:
  "main ex_opts_nv12 (ex_world []) =
    ([DrmOpen ''vc4'' 3, OpenVideo ''/dev/video0'' 4, QueryCap 0, G_Fmt 0,
      S_Fmt (g_fmt_pix ex_v4l) 0, G_Fmt 0, ReqBufs 2 0,
      Create_Dumb 640 480 32 614400 0 1, Prime_Handle_To_FD 1 0 5,
      AddFB2 640 480 NV12 1 1280 0 40,
      Create_Dumb 640 480 32 614400 0 2, Prime_Handle_To_FD 2 0 6,
      AddFB2 640 480 NV12 2 1280 0 41,
      GetResources, GetPlaneResources],
     Inl (Aborted ''failed to find compatible plane''))"
  by code_simp

text \<open>
  C4, amended. The calls of every run of \<^verbatim>\<open>main\<close> are in the order of the stages:
  negotiation with the producer, construction of the pool, resolution of the output,
  resolution of the plane, then registration with the producer and the stream. So the
  pool is built before the output and the plane are resolved; and when the run aborts
  because no plane is compatible, all \<^verbatim>\<open>buffer_count\<close> dumb buffers have been allocated,
  none has been released, and nothing has been queued to the producer.
\<close>

theorem pool_is_built_before_resolution:
  "sorted (map phase (fst (main opts W))) \<and>
   (snd (main opts W) = Inl (Aborted ''failed to find compatible plane'') \<longrightarrow>
      length (filter created_dumb (fst (main opts W))) =
        unat (buffer_count (snd (parse_args opts))) \<and>
      (\<forall>c \<in> set (fst (main opts W)). \<not> is_release c \<and> phase c < 4))"
proof -
  obtain tr r where m: "main opts W = (tr, r)"
    by (cases "main opts W")
  from m have "sorted (map phase tr) \<and>
    (r = Inl (Aborted ''failed to find compatible plane'') \<longrightarrow>
      length (filter created_dumb tr) = unat (buffer_count (snd (parse_args opts))) \<and>
      (\<forall>c \<in> set tr. \<not> is_release c \<and> phase c < 4))"
  proof (cases rule: main_cases)
    case (args msg)
    then show ?thesis by auto
  next
    case (negotiate s st)
    with negotiate_phase [of W s] negotiate_Inl [of W s tr st] sorted_same_phase [of tr 0]
    show ?thesis by auto
  next
    case (pool s s1 sz pitch t1 t2 st)
    have p1: "\<forall>c \<in> set t1. phase c = 0"
      using negotiate_phase [of W s] pool(2) by simp
    have p2: "\<forall>c \<in> set t2. phase c = 1"
      using create_buffers_phase [of W s1 sz pitch 0 "[]"] pool(3) by simp
    from create_buffers_Inl [OF pool(3)] pool(5)
    have "r \<noteq> Inl (Aborted ''failed to find compatible plane'')" by simp
    moreover from p1 p2 sorted_same_phase [of t1 0] sorted_same_phase [of t2 1] pool(4)
    have "sorted (map phase tr)" by (simp add: sorted_append)
    ultimately show ?thesis by simp
  next
    case (resolve s s1 sz pitch t1 t2 buffer t3 st)
    have p1: "\<forall>c \<in> set t1. phase c = 0"
      using negotiate_phase [of W s] resolve(2) by simp
    have p2: "\<forall>c \<in> set t2. phase c = 1"
      using create_buffers_phase [of W s1 sz pitch 0 "[]"] resolve(3) by simp
    have c2: "filter is_release t2 = []" "length (filter created_dumb t2) = unat (buffer_count s1)"
      using create_buffers_Inr [OF resolve(3)] by simp_all
    have n: "buffer_count s1 = buffer_count s"
      using negotiate_result [OF resolve(2)] by simp
    have p3: "t3 = [GetResources] \<or> t3 = [GetResources, GetPlaneResources]"
      using resolve_trace [of W s1] resolve(4) by simp
    have f1: "filter created_dumb t1 = []" "filter is_release t1 = []"
      using p1 release_phase by (fastforce simp add: filter_empty_conv elim: created_dumb.elims)+
    have f3: "filter created_dumb t3 = []" "filter is_release t3 = []"
      using p3 by auto
    have srt: "sorted (map phase tr)"
      using p1 p2 p3 sorted_same_phase [of t1 0] sorted_same_phase [of t2 1] resolve(5)
      by (auto simp add: sorted_append)
    have cnt: "length (filter created_dumb tr) = unat (buffer_count (snd (parse_args opts)))"
      using resolve(1,5) c2 n f1 f3 by simp
    have rel: "\<forall>c \<in> set tr. \<not> is_release c \<and> phase c < 4"
    proof
      fix c assume "c \<in> set tr"
      with resolve(5) consider "c \<in> set t1" | "c \<in> set t2" | "c \<in> set t3" by auto
      then show "\<not> is_release c \<and> phase c < 4"
      proof cases
        case 1
        with p1 release_phase [of c] show ?thesis by fastforce
      next
        case 2
        with p2 c2(1) show ?thesis by (fastforce simp add: filter_empty_conv)
      next
        case 3
        with p3 show ?thesis by auto
      qed
    qed
    from srt cnt rel show ?thesis by simp
  next
    case (queue s s1 sz pitch t1 t2 buffer t3 s2 t4 st)
    have p1: "\<forall>c \<in> set t1. phase c = 0"
      using negotiate_phase [of W s] queue(2) by simp
    have p2: "\<forall>c \<in> set t2. phase c = 1"
      using create_buffers_phase [of W s1 sz pitch 0 "[]"] queue(3) by simp
    have p3: "t3 = [GetResources, GetPlaneResources]"
      using resolve_Inr [OF queue(4)] .
    have p4: "\<forall>c \<in> set t4. phase c = 4"
      using queue_buffers_phase [of W buffer 0] queue(5) by simp
    from queue_buffers_Inl [OF queue(5)] queue(7)
    have "r \<noteq> Inl (Aborted ''failed to find compatible plane'')" by simp
    moreover from p1 p2 p3 p4 sorted_same_phase [of t1 0] sorted_same_phase [of t2 1]
      sorted_same_phase [of t4 4] queue(6)
    have "sorted (map phase tr)" by (auto simp add: sorted_append)
    ultimately show ?thesis by simp
  next
    case (stream s s1 sz pitch t1 t2 buffer t3 s2 t4 t5)
    have p1: "\<forall>c \<in> set t1. phase c = 0"
      using negotiate_phase [of W s] stream(2) by simp
    have p2: "\<forall>c \<in> set t2. phase c = 1"
      using create_buffers_phase [of W s1 sz pitch 0 "[]"] stream(3) by simp
    have p3: "t3 = [GetResources, GetPlaneResources]"
      using resolve_Inr [OF stream(4)] .
    have p4: "\<forall>c \<in> set t4. phase c = 4"
      using queue_buffers_phase [of W buffer 0] stream(5) by simp
    have p5: "\<forall>c \<in> set t5. phase c = 4"
      using stream_phase [of W s2 buffer] stream(6) by simp
    have "r \<noteq> Inl (Aborted ''failed to find compatible plane'')"
      using stream(6)
    proof (cases rule: stream_cases)
      case off
      then show ?thesis by simp
    next
      case (on tr' c st)
      with handoff_halt [OF on(1)] show ?thesis by (auto split: halt.splits)
    qed
    moreover from p1 p2 p3 p4 p5 sorted_same_phase [of t1 0] sorted_same_phase [of t2 1]
      sorted_same_phase [of t4 4] sorted_same_phase [of t5 4] stream(7)
    have "sorted (map phase tr)" by (auto simp add: sorted_append)
    ultimately show ?thesis by simp
  qed
  with m show ?thesis by simp
qed

theorem pool_is_built_before_resolution_witness:
  "sorted (map phase (fst (main ex_opts_nv12 (ex_world []))))
   \<and> length (filter created_dumb (fst (main ex_opts_nv12 (ex_world [])))) = 2
   \<and> list_all (\<lambda>c. \<not> is_release c \<and> phase c < 4) (fst (main ex_opts_nv12 (ex_world [])))"
proof -
  have a: "snd (main ex_opts_nv12 (ex_world [])) = Inl (Aborted ''failed to find compatible plane'')"
    by code_simp
  have b: "unat (buffer_count (snd (parse_args ex_opts_nv12))) = 2"
    by code_simp
  from pool_is_built_before_resolution [of ex_opts_nv12 "ex_world []"] a b
  show ?thesis by (simp add: list_all_iff)
qed

section \<open>The pool and the buffer count\<close>

text \<open>
  C3, as the specification states it, fails: when the allocation of the second buffer fails, the
  run aborts and the first buffer keeps its allocation, its descriptor and its
  framebuffer; no call releases them.
\<close>

theorem failed_pool_keeps_earlier_buffers:
  "main (ex_opts ''2'') ex_world_nomem =
    ([DrmOpen ''vc4'' 3, OpenVideo ''/dev/video0'' 4, QueryCap 0, G_Fmt 0,
      S_Fmt (g_fmt_pix ex_v4l) 0, G_Fmt 0, ReqBufs 2 0,
      Create_Dumb 640 480 32 614400 0 1, Prime_Handle_To_FD 1 0 5,
      AddFB2 640 480 XR24 1 1280 0 40,
      Create_Dumb 640 480 32 614400 (- 1) 2],
     Inl (Aborted ''failed to create buffer''))
   \<and> live_bos (fst (main (ex_opts ''2'') ex_world_nomem)) [] = [1]
   \<and> live_fds (fst (main (ex_opts ''2'') ex_world_nomem)) [] = [5]
   \<and> live_fbs (fst (main (ex_opts ''2'') ex_world_nomem)) [] = [40]"
  by code_simp

text \<open>
  C3, amended. The loop that builds the pool stops at the first \<^verbatim>\<open>buffer_create\<close> that
  fails, say that of buffer \<open>j\<close>, and \<^verbatim>\<open>main\<close> aborts. Inside that \<^verbatim>\<open>buffer_create\<close> what
  buffer \<open>j\<close> itself had acquired is released in reverse order (the exported descriptor is
  closed if the export had succeeded, then the allocation is destroyed if it had been
  made). The buffers 0 to \<open>j - 1\<close> are not released: the calls made for them are \<open>j\<close>
  successful allocations and no release.
\<close>

theorem pool_failure_releases_only_failed_buffer:
  assumes "\<forall>k < j. created (creates W k)"
    and "\<not> created (creates W j)"
    and "j < unat (buffer_count s)"
  shows "create_buffers W s sz pitch 0 [] =
      (concat (map (create_calls W s sz pitch) [0..<j]) @ create_calls W s sz pitch j,
       Inl (Aborted ''failed to create buffer''))
    \<and> filter is_release (create_calls W s sz pitch j) = rollback (creates W j)
    \<and> filter is_release (concat (map (create_calls W s sz pitch) [0..<j])) = []
    \<and> length (filter created_dumb (concat (map (create_calls W s sz pitch) [0..<j]))) = j"
proof -
  from assms(1) have ok: "\<forall>k. 0 \<le> k \<and> k < j \<longrightarrow> created (creates W k)" by simp
  have run: "create_buffers W s sz pitch 0 [] =
      (concat (map (create_calls W s sz pitch) [0..<j]) @ create_calls W s sz pitch j,
       Inl (Aborted ''failed to create buffer''))"
    by (rule create_buffers_first_failure [OF ok assms(2) _ assms(3)]) simp
  have rb: "filter is_release (create_calls W s sz pitch j) = rollback (creates W j)"
    using buffer_create_failed [OF assms(2)] by (simp add: create_calls_def)
  have pre: "i \<le> j \<Longrightarrow>
      filter is_release (concat (map (create_calls W s sz pitch) [0..<i])) = [] \<and>
      length (filter created_dumb (concat (map (create_calls W s sz pitch) [0..<i]))) = i" for i
  proof (induction i)
    case 0
    then show ?case by simp
  next
    case (Suc i)
    then have "created (creates W i)" using assms(1) by simp
    from create_calls_created [OF this, of s sz pitch] Suc show ?case by simp
  qed
  from run rb pre [of j] show ?thesis by simp
qed

theorem pool_failure_releases_only_failed_buffer_witness:
  "create_buffers ex_world_nofb ex_setup 614400 1280 0 [] =
      (create_calls ex_world_nofb ex_setup 614400 1280 0 @
       create_calls ex_world_nofb ex_setup 614400 1280 1,
       Inl (Aborted ''failed to create buffer''))
    \<and> filter is_release (create_calls ex_world_nofb ex_setup 614400 1280 1) =
        [Close 6, Destroy_Dumb 2 0]
    \<and> filter is_release (create_calls ex_world_nofb ex_setup 614400 1280 0) = []
    \<and> length (filter created_dumb (create_calls ex_world_nofb ex_setup 614400 1280 0)) = 1"
proof -
  have a: "\<forall>k < 1. created (creates ex_world_nofb k)"
    by (simp add: ex_world_nofb_def ex_world_def ex_create_def created_def)
  have b: "\<not> created (creates ex_world_nofb 1)"
    by (simp add: ex_world_nofb_def ex_world_def ex_create_def created_def)
  have c: "1 < unat (buffer_count ex_setup)"
    by (simp add: ex_setup_def setup0_def)
  have r: "rollback (creates ex_world_nofb 1) = [Close 6, Destroy_Dumb 2 0]"
    by (simp add: ex_world_nofb_def ex_world_def ex_create_def rollback_def)
  from pool_failure_releases_only_failed_buffer [OF a b c, of 614400 1280] r
  show ?thesis by simp
qed

text \<open>
  C5, as the specification states it, fails: with \<^verbatim>\<open>-b 1\<close> the setup goes through, streaming is
  started and the one buffer is dequeued and presented; then the producer has no buffer
  left, \<^verbatim>\<open>poll\<close> times out and \<^verbatim>\<open>main\<close> returns 0.
\<close>

theorem one_buffer_is_accepted:
  "buffer_count (snd (parse_args (ex_opts ''1''))) = 1
   \<and> main (ex_opts ''1'') (ex_world [frame 0, timeout]) =
    ([DrmOpen ''vc4'' 3, OpenVideo ''/dev/video0'' 4, QueryCap 0, G_Fmt 0,
      S_Fmt (g_fmt_pix ex_v4l) 0, G_Fmt 0, ReqBufs 1 0,
      Create_Dumb 640 480 32 614400 0 1, Prime_Handle_To_FD 1 0 5,
      AddFB2 640 480 XR24 1 1280 0 40,
      GetResources, GetPlaneResources, QBuf 0 5 0, StreamOn 0,
      DQBuf 0 0, SetPlane (set_plane_req ex_stream 40) 0],
     Inr 0)"
  by code_simp

lemma negotiate_count_check:
  "negotiate W s = (t, Inr x) \<Longrightarrow> buffer_count s \<le> reqbufs_count (v4l W) (buffer_count s)"
  unfolding negotiate_def Let_def
  by (auto elim!: seq_cases BYE_ON_cases simp add: perform_def)

text \<open>When every stage of the setup succeeds, the run reaches \<^verbatim>\<open>VIDIOC_STREAMON\<close>.\<close>

lemma stages_reach_streamon:
  assumes "parse_args opts = (0, s)" and "drm_module s \<noteq> []" and "video s \<noteq> []"
    and "negotiate W s = (t1, Inr (s1, sz, pitch))"
    and "\<forall>k < unat (buffer_count s). created (creates W k)"
    and "resolve W s1 = (t3, Inr s2)"
    and "\<forall>k < unat (buffer_count s). 0 \<le> queue_ret (v4l W) k"
  shows "\<exists>pre post. fst (main opts W) = pre @ StreamOn (streamon_ret (v4l W)) # post \<and>
    length (filter created_dumb pre) = unat (buffer_count s) \<and>
    length (filter (\<lambda>c. phase c = 4) pre) = unat (buffer_count s)"
proof -
  have n: "buffer_count s1 = buffer_count s"
    using negotiate_result [OF assms(4)] by simp
  let ?N = "unat (buffer_count s1)"
  let ?t2 = "concat (map (create_calls W s1 sz pitch) [0..<?N])"
  let ?bufs = "map (\<lambda>k. made (creates W k)) [0..<?N]"
  have cb: "create_buffers W s1 sz pitch 0 [] = (?t2, Inr ?bufs)"
    using create_buffers_all [of 0 s1 W sz pitch "[]"] assms(5) n by simp
  let ?t4 = "map (\<lambda>k. QBuf (of_nat k) (dbuf_fd (?bufs ! k)) (queue_ret (v4l W) k)) [0..<length ?bufs]"
  have qb: "queue_buffers W ?bufs 0 = (?t4, Inr ())"
    using queue_buffers_all [of ?bufs W 0] assms(7) n by simp
  obtain t5 r where st: "stream W s2 ?bufs = (t5, r)"
    by (cases "stream W s2 ?bufs")
  from stream_trace [of W s2 ?bufs] st obtain post where
    t5: "t5 = StreamOn (streamon_ret (v4l W)) # post" by auto
  have run: "main opts W = (t1 @ ?t2 @ t3 @ ?t4 @ t5, r)"
    using assms(1,2,3,4,6) cb qb st
    by (simp add: main_def seq_def BYE_ON_def)
  have p1: "\<forall>c \<in> set t1. phase c = 0"
    using negotiate_phase [of W s] assms(4) by simp
  have f1: "filter created_dumb t1 = []" "filter (\<lambda>c. phase c = 4) t1 = []"
    using p1 by (fastforce simp add: filter_empty_conv elim: created_dumb.elims)+
  have p2: "\<forall>c \<in> set ?t2. phase c = 1"
    using create_buffers_phase [of W s1 sz pitch 0 "[]"] cb by simp
  have f2: "length (filter created_dumb ?t2) = ?N" "filter (\<lambda>c. phase c = 4) ?t2 = []"
    using create_buffers_Inr [OF cb] p2 by (simp_all add: filter_empty_conv)
  have t3: "t3 = [GetResources, GetPlaneResources]"
    using resolve_Inr [OF assms(6)] .
  have f4: "filter created_dumb ?t4 = []" "length (filter (\<lambda>c. phase c = 4) ?t4) = ?N"
    by (simp_all add: filter_empty_conv filter_map comp_def)
  let ?pre = "t1 @ ?t2 @ t3 @ ?t4"
  have "fst (main opts W) = ?pre @ StreamOn (streamon_ret (v4l W)) # post"
    using run t5 by simp
  moreover have "length (filter created_dumb ?pre) = unat (buffer_count s)"
    using f1 f2 t3 f4 n by simp
  moreover have "length (filter (\<lambda>c. phase c = 4) ?pre) = unat (buffer_count s)"
    using f1 f2 t3 f4 n by simp
  ultimately show ?thesis by blast
qed

lemma parse_opts_append:
  "parse_opts xs s = (0, s') \<Longrightarrow> parse_opts (xs @ ys) s = parse_opts ys s'"
proof (induction xs arbitrary: s)
  case Nil
  then show ?case by simp
next
  case (Cons x xs)
  obtain c optarg where x: "x = (c, optarg)" by (cases x)
  have "parse_opts (x # xs) s = (0, s') \<longrightarrow>
      parse_opts ((x # xs) @ ys) s = parse_opts ys s'"
    using Cons.IH by (simp add: x Let_def split: prod.split)
  with Cons.prems show ?case by simp
qed

lemma parse_opts_count:
  "sscanf_nums [] optarg = [n] \<Longrightarrow>
     parse_opts [(CHR ''b'', optarg)] s = (0, s\<lparr>buffer_count := n\<rparr>)"
  by (simp add: Let_def stored_def)

text \<open>
  The negotiation succeeds as soon as the two devices accept its requests and the
  producer grants at least as many buffers as requested: it puts no other condition on
  the buffer count.
\<close>

lemma negotiate_accepts:
  assumes "0 \<le> drm_open_ret W" and "0 \<le> open_ret (v4l W)"
    and "querycap_ret (v4l W) = 0"
    and "NOT (capabilities (v4l W)) AND V4L2_CAP_VIDEO_CAPTURE = 0"
    and "0 \<le> g_fmt_ret (v4l W)"
    and "\<And>f. 0 \<le> s_fmt_ret (v4l W) f"
    and "\<And>f. 0 \<le> g_fmt_final_ret (v4l W) f"
    and "0 \<le> reqbufs_ret (v4l W) (buffer_count s)"
    and "buffer_count s \<le> reqbufs_count (v4l W) (buffer_count s)"
  shows "\<exists>t s1 sz pitch. negotiate W s = (t, Inr (s1, sz, pitch))"
  using assms
  by (simp add: negotiate_def Let_def seq_def perform_def BYE_ON_def not_less)

lemma negotiate_keeps:
  assumes "negotiate W s = (t, Inr (s1, sz, pitch))"
  shows "conId s1 = conId s \<and> crtcId s1 = crtcId s \<and> out_fourcc s1 = out_fourcc s"
  using assms unfolding negotiate_def Let_def
  by (auto elim!: seq_cases BYE_ON_cases simp add: perform_def)

lemma crtc_index_at:
  "idx < length xs \<Longrightarrow> xs ! idx = c \<Longrightarrow> c \<notin> set (take idx xs) \<Longrightarrow>
     crtc_index c xs i = i + int idx"
proof (induction xs arbitrary: idx i)
  case Nil
  then show ?case by simp
next
  case (Cons x xs)
  show ?case
  proof (cases idx)
    case 0
    with Cons.prems show ?thesis by simp
  next
    case (Suc k)
    with Cons.prems have "k < length xs" "xs ! k = c" "c \<notin> set (take k xs)" "c \<noteq> x"
      by auto
    with Cons.IH [of k "i + 1"] Suc show ?thesis by simp
  qed
qed

lemma find_crtc_found:
  assumes "getResources d = Some res"
    and "conId s \<noteq> 0"
    and "idx < length (crtcs res)" and "crtcs res ! idx = crtcId s"
    and "crtcId s \<notin> set (take idx (crtcs res))"
    and "connectors res \<noteq> []"
    and "getConnector d (conId s) = Some c" and "count_modes c \<noteq> 0"
    and "getCrtc d (crtcId s) = Some crtc"
  shows "\<exists>s1. find_crtc d s = Inr (0, s1) \<and> crtcIdx s1 = int idx \<and>
    out_fourcc s1 = out_fourcc s"
proof -
  from assms(3) have ne: "crtcs res \<noteq> []" by auto
  from crtc_index_at [OF assms(3,4,5), of 0]
  have ix: "crtc_index (crtcId s) (crtcs res) 0 = int idx" by simp
  from assms ne ix show ?thesis
    by (simp add: find_crtc_def Let_def)
qed

lemma find_plane_found:
  assumes "getPlaneResources d = Some ids"
    and "map (getPlane d) ids = map Some ps"
    and "0 \<le> crtcIdx s" and "crtcIdx s < 32"
    and "p \<in> set ps" and "plane_compatible (crtcIdx s) (out_fourcc s) p"
  shows "\<exists>s2. find_plane d s = Inr (0, s2)"
proof -
  from assms(2) have "length (map (getPlane d) ids) = length (map Some ps)" by simp
  then have len: "length ps = length ids" by simp
  from assms(5,6) obtain q where q: "find (plane_compatible (crtcIdx s) (out_fourcc s)) ps = Some q"
    by (cases "find (plane_compatible (crtcIdx s) (out_fourcc s)) ps") (auto simp add: find_None_iff)
  then have "length (takeWhile (\<lambda>q. \<not> plane_compatible (crtcIdx s) (out_fourcc s) q) ps) < length ids"
    using find_Some_takeWhile [of "plane_compatible (crtcIdx s) (out_fourcc s)" ps q] len by simp
  with q assms(1) scan_planes_find [OF assms(2,3,4), of 0] show ?thesis
    by (simp add: find_plane_def)
qed

lemma resolve_found:
  assumes "find_crtc (drm W) s = Inr (0, s1)" and "find_plane (drm W) s1 = Inr (0, s2)"
  shows "resolve W s = ([GetResources, GetPlaneResources], Inr s2)"
  using assms by (simp add: resolve_def seq_def perform_def BYE_ON_def)

text \<open>
  C5, amended. No lower bound is put on the buffer count. Whatever number \<open>n\<close> the
  conversion of the argument of \<^verbatim>\<open>-b\<close> yields (1 and 0 included), \<^verbatim>\<open>parse_args\<close> stores it,
  and if the devices accept the requests of the setup (the only condition that involves
  the count is that \<^verbatim>\<open>VIDIOC_REQBUFS\<close> grants at least \<open>n\<close> buffers), every
  \<^verbatim>\<open>buffer_create\<close> is served, the output given by the caller and a compatible plane
  exist, and the producer accepts the buffers, then all \<open>n\<close> buffers are allocated and
  queued and \<^verbatim>\<open>VIDIOC_STREAMON\<close> is called.
\<close>

theorem any_buffer_count_reaches_streamon:
  assumes "parse_opts base setup0 = (0, s0)"
    and "drm_module s0 \<noteq> []" and "video s0 \<noteq> []" and "conId s0 \<noteq> 0"
    and "sscanf_nums [] optarg = [n]"
    and "0 \<le> drm_open_ret W" and "0 \<le> open_ret (v4l W)"
    and "querycap_ret (v4l W) = 0"
    and "NOT (capabilities (v4l W)) AND V4L2_CAP_VIDEO_CAPTURE = 0"
    and "0 \<le> g_fmt_ret (v4l W)"
    and "\<And>f. 0 \<le> s_fmt_ret (v4l W) f"
    and "\<And>f. 0 \<le> g_fmt_final_ret (v4l W) f"
    and "0 \<le> reqbufs_ret (v4l W) n"
    and "n \<le> reqbufs_count (v4l W) n"
    and "\<forall>k < unat n. created (creates W k)"
    and "getResources (drm W) = Some res"
    and "idx < length (crtcs res)" and "crtcs res ! idx = crtcId s0"
    and "crtcId s0 \<notin> set (take idx (crtcs res))" and "idx < 32"
    and "connectors res \<noteq> []"
    and "getConnector (drm W) (conId s0) = Some c" and "count_modes c \<noteq> 0"
    and "getCrtc (drm W) (crtcId s0) = Some crtc"
    and "getPlaneResources (drm W) = Some ids"
    and "map (getPlane (drm W)) ids = map Some ps"
    and "p \<in> set ps" and "bit (possible_crtcs p) idx" and "out_fourcc s0 \<in> set (formats p)"
    and "\<forall>k < unat n. 0 \<le> queue_ret (v4l W) k"
  shows "\<exists>pre post.
    fst (main (base @ [(CHR ''b'', optarg)]) W) = pre @ StreamOn (streamon_ret (v4l W)) # post \<and>
    length (filter created_dumb pre) = unat n \<and>
    length (filter (\<lambda>c. phase c = 4) pre) = unat n"
proof -
  let ?s = "s0\<lparr>buffer_count := n\<rparr>"
  have parsed: "parse_args (base @ [(CHR ''b'', optarg)]) = (0, ?s)"
    using parse_opts_append [OF assms(1)] parse_opts_count [OF assms(5)]
    by (simp add: parse_args_def)
  have names: "drm_module ?s \<noteq> []" "video ?s \<noteq> []"
    using assms(2,3) by simp_all
  have cnt: "buffer_count ?s = n" by simp
  from negotiate_accepts [of W ?s] assms(6-14) obtain t1 s1 sz pitch where
    neg: "negotiate W ?s = (t1, Inr (s1, sz, pitch))"
    by auto
  from negotiate_keeps [OF neg] have keep:
    "conId s1 = conId s0" "crtcId s1 = crtcId s0" "out_fourcc s1 = out_fourcc s0"
    by simp_all
  from find_crtc_found [of "drm W" res s1 idx c crtc] assms(4,16-19,21-24) keep
  obtain s1' where crtc: "find_crtc (drm W) s1 = Inr (0, s1')"
    and ix: "crtcIdx s1' = int idx" and fc: "out_fourcc s1' = out_fourcc s0"
    by auto
  have "plane_compatible (crtcIdx s1') (out_fourcc s1') p"
    using assms(28,29) ix fc by (simp add: plane_compatible_def)
  with find_plane_found [of "drm W" ids ps s1' p] assms(20,25,26,27) ix
  obtain s2 where plane: "find_plane (drm W) s1' = Inr (0, s2)"
    by auto
  have res: "resolve W s1 = ([GetResources, GetPlaneResources], Inr s2)"
    using resolve_found [OF crtc plane] .
  from stages_reach_streamon [OF parsed names neg _ res] assms(15,30) cnt
  show ?thesis by simp
qed

theorem any_buffer_count_reaches_streamon_witness:
  "\<exists>pre post. fst (main (ex_opts ''1'') (ex_world [frame 0, timeout])) = pre @ StreamOn 0 # post \<and>
    length (filter created_dumb pre) = 1 \<and> length (filter (\<lambda>c. phase c = 4) pre) = 1"
proof -
  let ?W = "ex_world [frame 0, timeout]"
  have a: "parse_opts [(CHR ''M'', ''vc4''), (CHR ''i'', ''/dev/video0''), (CHR ''o'', ''60:51''),
      (CHR ''F'', ''XR24'')] setup0 = (0, ex_parsed 0)"
    by code_simp
  have b: "drm_module (ex_parsed 0) \<noteq> []" "video (ex_parsed 0) \<noteq> []" "conId (ex_parsed 0) \<noteq> 0"
    by (simp_all add: ex_parsed_def)
  have c: "sscanf_nums [] ''1'' = [1]"
    by code_simp
  have d: "0 \<le> drm_open_ret ?W" "0 \<le> open_ret (v4l ?W)" "querycap_ret (v4l ?W) = 0"
      "NOT (capabilities (v4l ?W)) AND V4L2_CAP_VIDEO_CAPTURE = 0" "0 \<le> g_fmt_ret (v4l ?W)"
    by (simp_all add: ex_world_def ex_v4l_def V4L2_CAP_VIDEO_CAPTURE_def)
  have e: "\<And>f. 0 \<le> s_fmt_ret (v4l ?W) f" "\<And>f. 0 \<le> g_fmt_final_ret (v4l ?W) f"
      "0 \<le> reqbufs_ret (v4l ?W) 1" "1 \<le> reqbufs_count (v4l ?W) 1"
    by (simp_all add: ex_world_def ex_v4l_def)
  have f: "\<forall>k < unat (1 :: u32). created (creates ?W k)"
    by (simp add: ex_world_def ex_create_def created_def)
  have g: "getResources (drm ?W) = Some \<lparr>crtcs = [50, 51], connectors = [60]\<rparr>"
    by (simp add: ex_world_def ex_dev_def)
  have h: "1 < length (crtcs \<lparr>crtcs = [50, 51 :: u32], connectors = [60]\<rparr>)"
      "crtcs \<lparr>crtcs = [50, 51], connectors = [60]\<rparr> ! 1 = crtcId (ex_parsed 0)"
      "crtcId (ex_parsed 0) \<notin> set (take 1 (crtcs \<lparr>crtcs = [50, 51], connectors = [60]\<rparr>))"
      "(1 :: nat) < 32"
      "connectors \<lparr>crtcs = [50, 51 :: u32], connectors = [60 :: u32]\<rparr> \<noteq> []"
    by (simp_all add: ex_parsed_def)
  have i: "getConnector (drm ?W) (conId (ex_parsed 0)) =
        Some \<lparr>connector_id = 60, encoder_id = 70, count_modes = 1\<rparr>"
      "count_modes \<lparr>connector_id = 60, encoder_id = 70, count_modes = 1\<rparr> \<noteq> 0"
      "getCrtc (drm ?W) (crtcId (ex_parsed 0)) =
        Some \<lparr>crtc_id = 51, crtc_pos_x = 0, crtc_pos_y = 0, crtc_width = 1920, crtc_height = 1080\<rparr>"
    by (simp_all add: ex_world_def ex_dev_def ex_parsed_def)
  have j: "getPlaneResources (drm ?W) = Some [31, 32, 33, 34]"
      "map (getPlane (drm ?W)) [31, 32, 33, 34] = map Some ex_planes"
    by (simp_all add: ex_world_def ex_dev_def ex_planes_def)
  have k: "\<lparr>plane_id = 33, possible_crtcs = 2, formats = [YUYV, XR24]\<rparr> \<in> set ex_planes"
      "bit (possible_crtcs \<lparr>plane_id = 33, possible_crtcs = 2, formats = [YUYV, XR24]\<rparr>) 1"
      "out_fourcc (ex_parsed 0) \<in>
        set (formats \<lparr>plane_id = 33, possible_crtcs = 2, formats = [YUYV, XR24]\<rparr>)"
    by (simp_all add: ex_planes_def ex_parsed_def)
  have l: "\<forall>k < unat (1 :: u32). 0 \<le> queue_ret (v4l ?W) k"
    by (simp add: ex_world_def ex_v4l_def)
  have m: "streamon_ret (v4l ?W) = 0"
    by (simp add: ex_world_def ex_v4l_def)
  from any_buffer_count_reaches_streamon [OF a b c d e f g h i j k l] m
  show ?thesis by (simp add: ex_opts_def)
qed

section \<open>The rectangles of a presentation\<close>

text \<open>
  Every \<^verbatim>\<open>drmModeSetPlane\<close> call of the loop passes the compose rectangle of the setup as
  its destination and the whole frame, from the origin, as its source.
\<close>

lemma handoff_body_reqs:
  "list_all (\<lambda>q. \<exists>fb. q = set_plane_req s fb) (presented_reqs (fst (handoff_body s b cur ev)))"
  by (auto simp add: handoff_body_def Let_def)

lemma presented_reqs_append: "presented_reqs (xs @ ys) = presented_reqs xs @ presented_reqs ys"
  by (induction xs rule: presented_reqs.induct) simp_all

lemma handoff_reqs:
  "list_all (\<lambda>q. \<exists>fb. q = set_plane_req s fb) (presented_reqs (fst (handoff s b cur evs)))"
proof (induction evs arbitrary: cur)
  case Nil
  then show ?case by simp
next
  case (Cons ev evs)
  obtain t r where body: "handoff_body s b cur ev = (t, r)"
    by (cases "handoff_body s b cur ev")
  with handoff_body_reqs [of s b cur ev]
  have t: "list_all (\<lambda>q. \<exists>fb. q = set_plane_req s fb) (presented_reqs t)" by simp
  show ?case
  proof (cases r)
    case (Inl stop)
    with body t show ?thesis by simp
  next
    case (Inr cur')
    with Cons [of cur'] body t show ?thesis
      by (auto simp add: presented_reqs_append split: prod.splits)
  qed
qed

lemma handoff_rectangles:
  "list_all (\<lambda>q. crtc_x q = left (compose s) \<and> crtc_y q = top_r (compose s) \<and>
                 crtc_w q = width (compose s) \<and> crtc_h q = height (compose s) \<and>
                 src_x q = 0 \<and> src_y q = 0 \<and>
                 src_w q = push_bit 16 (w s) \<and> src_h q = push_bit 16 (h s))
     (presented_reqs (fst (handoff s b cur evs)))"
  using handoff_reqs [of s b cur evs]
  by (auto simp add: list_all_iff set_plane_req_def)

text \<open>
  \<^verbatim>\<open>parse_rect\<close> stores the number after \<^verbatim>\<open>@\<close> in \<^verbatim>\<open>top\<close> and the last one in \<^verbatim>\<open>left\<close>,
  where the usage text announces \<^verbatim>\<open><width,height>@<left,top>\<close>.
\<close>

lemma parse_rect_stores_top_first:
  "parse_rect ''100,200@30,40'' rect0 =
     (0, \<lparr>left = 40, top_r = 30, width = 100, height = 200\<rparr>)"
  by code_simp

lemma set_plane_req_ignores_crop:
  "set_plane_req (s\<lparr>crop := r, use_crop := u\<rparr>) fb = set_plane_req s fb"
  by (simp add: set_plane_req_def)

text \<open>
  C9. A crop rectangle given by the caller should be the source rectangle of every
  presentation. It is not: with \<^verbatim>\<open>-s 320,240@0,0\<close> the crop rectangle is parsed and stored
  and \<^verbatim>\<open>use_crop\<close> is set, but the \<^verbatim>\<open>drmModeSetPlane\<close> call of the run still passes the whole 640 by 480
  frame as its source rectangle (in 16.16 fixed point), and the run is the run without
  the option. The destination rectangle is the compose rectangle of the setup.
\<close>

theorem crop_option_is_not_presented:
  "crop (snd (parse_args ex_opts_crop)) = \<lparr>left = 0, top_r = 0, width = 320, height = 240\<rparr>
   \<and> use_crop (snd (parse_args ex_opts_crop))
   \<and> last (fst (main ex_opts_crop (ex_world [frame 0]))) =
      SetPlane \<lparr>sp_plane_id = 33, sp_crtc_id = 51, sp_fb_id = 40, sp_flags = 0,
                crtc_x = 0, crtc_y = 0, crtc_w = 1920, crtc_h = 1080,
                src_x = 0, src_y = 0, src_w = push_bit 16 640, src_h = push_bit 16 480\<rparr> 0
   \<and> main ex_opts_crop (ex_world [frame 0]) = main (ex_opts ''2'') (ex_world [frame 0])"
  by code_simp

end
